theory Spec2Isabelle
  imports Main "HOL-Library.Multiset"
begin

section \<open>Python values of the pruner\<close>

text \<open>
  The development embeds \<^verbatim>\<open>torch/ao/sparsity/experimental/pruner/base_pruner.py\<close>.
  Module objects live in a heap indexed by object identity; the Python operator
  \<^verbatim>\<open>is\<close> on modules is equality of references. Every \<^verbatim>\<open>raise\<close> of the source, and
  every exception of the interpreter and of the host library on the paths the source
  takes, is a value of type \<open>error\<close>.
\<close>

datatype error =
  AttributeError | KeyError | IndexError | ValueError | TypeError
  | NotImplementedError | RecursionError

type_synonym ref = nat

text \<open>
  The class of a module object, as \<^verbatim>\<open>type(module)\<close> reports it. \<open>Subclass name base\<close>
  is a class declared as \<^verbatim>\<open>class name(base)\<close>; \<open>Other name\<close> is any module class that
  derives from none of the three kinds the pruner knows (a container, an activation,
  a user layer).
\<close>

datatype cls = Linear | Conv2d | BatchNorm2d | Other string | Subclass string cls

fun issubclass :: "cls \<Rightarrow> cls \<Rightarrow> bool" where
  "issubclass (Subclass n b) k = (Subclass n b = k \<or> issubclass b k)"
| "issubclass c k = (c = k)"

definition SUPPORTED_MODULES :: "cls list" where
  "SUPPORTED_MODULES = [Linear, Conv2d, BatchNorm2d]"

definition NEEDS_MANUAL_UPDATE :: "cls list" where
  "NEEDS_MANUAL_UPDATE = [BatchNorm2d]"

definition NEEDS_ZEROS :: "cls list" where
  "NEEDS_ZEROS = [BatchNorm2d]"

text \<open>
  A tensor is a scalar (zero dimensions) or a stack of tensors along dimension 0.
  The engine never computes with the elements, it only copies and selects them, so an
  element is an integer (for a floating-point tensor: its bit pattern).
\<close>

datatype tensor = Scalar int | Stack "tensor list"

fun shape :: "tensor \<Rightarrow> nat list" where
  "shape (Scalar v) = []"
| "shape (Stack []) = [0]"
| "shape (Stack (t # ts)) = Suc (length ts) # shape t"

text \<open>\<^verbatim>\<open>t.shape[0]\<close>: indexing the empty shape of a scalar raises.\<close>

definition shape0 :: "tensor \<Rightarrow> error + nat" where
  "shape0 t = (case shape t of [] \<Rightarrow> Inl IndexError | n # _ \<Rightarrow> Inr n)"

text \<open>\<^verbatim>\<open>torch.tensor(n)\<close> of a Python integer: a zero-dimensional tensor holding \<open>n\<close>.\<close>

definition torch_tensor :: "nat \<Rightarrow> tensor" where
  "torch_tensor n = Scalar (int n)"

fun zeros_like :: "tensor \<Rightarrow> tensor" where
  "zeros_like (Scalar v) = Scalar 0"
| "zeros_like (Stack ts) = Stack (map zeros_like ts)"

text \<open>
  The weight transforms. The two classes of \<^verbatim>\<open>parametrization.py\<close> are named; a class
  supplied by the caller under the configuration key \<^verbatim>\<open>parametrization\<close> is given by
  what its \<^verbatim>\<open>forward\<close> computes.
\<close>

datatype param_class =
  PruningParametrization | ZeroesParametrization
  | UserParametrization "tensor \<Rightarrow> error + tensor"

datatype pyval =
  VNone | VStr string | VInt int | VTensor tensor | VModule ref | VClass param_class

type_synonym config = "string \<rightharpoonup> pyval"

text \<open>\<^verbatim>\<open>nn.Parameter(data)\<close>: \<^verbatim>\<open>requires_grad\<close> defaults to true.\<close>

record parameter =
  data :: tensor
  requires_grad :: bool

definition Parameter :: "tensor \<Rightarrow> parameter" where
  "Parameter t = \<lparr>data = t, requires_grad = True\<rparr>"

definition detach :: "tensor \<Rightarrow> tensor" where
  "detach t = t"

text \<open>
  A parametrization object: its class, the argument its constructor received
  (\<^verbatim>\<open>param(module.mask)\<close>) and the set of pruned output units it carries.
\<close>

record param_obj =
  p_class :: param_class
  p_arg :: pyval
  pruned_outputs :: "nat set"

datatype slot = ParameterSlot bool | BufferSlot

text \<open>
  \<^verbatim>\<open>module.parametrizations.weight\<close>: the transforms in registration order, the
  original tensor, and whether the original was a parameter (with its
  \<^verbatim>\<open>requires_grad\<close>) or a buffer.
\<close>

record parametrization_list =
  transforms :: "param_obj list"
  original :: tensor
  original_slot :: slot

text \<open>
  A forward hook holds the parametrization object it was built from, here the module
  whose \<^verbatim>\<open>parametrizations.weight[0]\<close> it is.
\<close>

datatype hook = ActivationReconstruction ref | BiasHook ref bool

text \<open>
  A module object: \<^verbatim>\<open>__class__\<close>, the three registries of \<^verbatim>\<open>nn.Module\<close>
  (\<^verbatim>\<open>_parameters\<close>, \<^verbatim>\<open>_buffers\<close>, \<^verbatim>\<open>_modules\<close>; a registered name may hold
  \<^verbatim>\<open>None\<close>), the parametrization of \<^verbatim>\<open>weight\<close> when one is registered, and the
  forward hooks. The \<^verbatim>\<open>parametrizations\<close> container is kept in its own field and is
  not listed among the child modules. Other instance attributes are not modelled.
\<close>

record module_obj =
  cls :: cls
  parameters :: "string \<rightharpoonup> parameter option"
  buffers :: "string \<rightharpoonup> tensor option"
  modules :: "(string \<times> ref option) list"
  parametrizations :: "parametrization_list option"
  forward_hooks :: "hook list"

type_synonym heap = "ref \<Rightarrow> module_obj"

section \<open>Attribute access on modules\<close>

text \<open>
  Modelled from the spec: \<^verbatim>\<open>parametrization.py\<close> is not part of the sources. The
  structural transform removes the pruned output units (rows along dimension 0), the
  zeroing transform replaces them by zeros and keeps the shape; a tensor without
  dimensions has no units and is returned as it is.
\<close>

definition select_rows :: "nat set \<Rightarrow> tensor list \<Rightarrow> tensor list" where
  "select_rows pruned ts = map (\<lambda>i. ts ! i) (filter (\<lambda>i. i \<notin> pruned) [0..<length ts])"

definition zero_rows :: "nat set \<Rightarrow> tensor list \<Rightarrow> tensor list" where
  "zero_rows pruned ts =
     map (\<lambda>i. if i \<in> pruned then zeros_like (ts ! i) else ts ! i) [0..<length ts]"

definition forward :: "param_obj \<Rightarrow> tensor \<Rightarrow> error + tensor" where
  "forward p x =
     (case p_class p of
        PruningParametrization \<Rightarrow>
          (case x of Scalar v \<Rightarrow> Inr x | Stack ts \<Rightarrow> Inr (Stack (select_rows (pruned_outputs p) ts)))
      | ZeroesParametrization \<Rightarrow>
          (case x of Scalar v \<Rightarrow> Inr x | Stack ts \<Rightarrow> Inr (Stack (zero_rows (pruned_outputs p) ts)))
      | UserParametrization f \<Rightarrow> f x)"

text \<open>The parametrized tensor: the transforms applied to the original, first one first.\<close>

fun apply_transforms :: "param_obj list \<Rightarrow> tensor \<Rightarrow> error + tensor" where
  "apply_transforms [] x = Inr x"
| "apply_transforms (p # ps) x =
     (case forward p x of Inl e \<Rightarrow> Inl e | Inr y \<Rightarrow> apply_transforms ps y)"

text \<open>
  \<^verbatim>\<open>module.name\<close>. A parametrized \<^verbatim>\<open>weight\<close> is a property of the injected class
  and is computed on access; otherwise \<^verbatim>\<open>nn.Module.__getattr__\<close> looks the name up in
  \<^verbatim>\<open>_parameters\<close>, \<^verbatim>\<open>_buffers\<close> and \<^verbatim>\<open>_modules\<close>, in this order, and raises
  \<^verbatim>\<open>AttributeError\<close> when it is in none.
\<close>

definition lookup_attr :: "module_obj \<Rightarrow> string \<Rightarrow> error + pyval" where
  "lookup_attr m name =
     (case (if name = ''weight'' then parametrizations m else None) of
        Some pl \<Rightarrow>
          (case apply_transforms (transforms pl) (original pl) of
             Inl e \<Rightarrow> Inl e
           | Inr t \<Rightarrow> Inr (VTensor t))
      | None \<Rightarrow>
          (case parameters m name of
             Some p \<Rightarrow> Inr (case p of None \<Rightarrow> VNone | Some q \<Rightarrow> VTensor (data q))
           | None \<Rightarrow>
               (case buffers m name of
                  Some b \<Rightarrow> Inr (case b of None \<Rightarrow> VNone | Some t \<Rightarrow> VTensor t)
                | None \<Rightarrow>
                    (case map_of (modules m) name of
                       Some c \<Rightarrow> Inr (case c of None \<Rightarrow> VNone | Some r \<Rightarrow> VModule r)
                     | None \<Rightarrow> Inl AttributeError))))"

text \<open>
  \<^verbatim>\<open>getattr(obj, name, None)\<close>: only \<^verbatim>\<open>AttributeError\<close> is replaced by the default.
  Attributes of values that are not modules are not modelled and count as absent.
\<close>

definition getattr_or_none :: "module_obj \<Rightarrow> string \<Rightarrow> error + pyval" where
  "getattr_or_none m name =
     (case lookup_attr m name of
        Inl AttributeError \<Rightarrow> Inr VNone
      | Inl e \<Rightarrow> Inl e
      | Inr v \<Rightarrow> Inr v)"

definition getattr_default :: "heap \<Rightarrow> pyval \<Rightarrow> string \<Rightarrow> error + pyval" where
  "getattr_default h obj name =
     (case obj of VModule r \<Rightarrow> getattr_or_none (h r) name | _ \<Rightarrow> Inr VNone)"

definition hasattr :: "module_obj \<Rightarrow> string \<Rightarrow> bool" where
  "hasattr m name = (lookup_attr m name \<noteq> Inl AttributeError)"

text \<open>
  \<^verbatim>\<open>named_children()\<close>: the entries of \<^verbatim>\<open>_modules\<close> in insertion order, without
  the \<^verbatim>\<open>None\<close> entries and without a module already yielded (the memo set).
\<close>

fun children_from :: "ref list \<Rightarrow> (string \<times> ref option) list \<Rightarrow> (string \<times> ref) list" where
  "children_from memo [] = []"
| "children_from memo ((name, None) # rest) = children_from memo rest"
| "children_from memo ((name, Some m) # rest) =
     (if m \<in> set memo then children_from memo rest
      else (name, m) # children_from (m # memo) rest)"

definition named_children :: "module_obj \<Rightarrow> (string \<times> ref) list" where
  "named_children m = children_from [] (modules m)"

section \<open>Path resolver\<close>

text \<open>
  \<^verbatim>\<open>_module_to_fqn(model, layer, prefix)\<close>. The first argument is the number of
  recursive calls the interpreter still allows: the recursion follows the child
  modules and raises \<^verbatim>\<open>RecursionError\<close> beyond that depth. The loop over the children
  is \<open>search_children\<close>.
\<close>

fun module_to_fqn :: "nat \<Rightarrow> heap \<Rightarrow> ref \<Rightarrow> pyval \<Rightarrow> string \<Rightarrow> error + string option"
  and search_children ::
    "nat \<Rightarrow> heap \<Rightarrow> (string \<times> ref) list \<Rightarrow> pyval \<Rightarrow> string \<Rightarrow> error + string option"
where
  "module_to_fqn 0 h model layer prefix = Inl RecursionError"
| "module_to_fqn (Suc d) h model layer prefix =
     search_children d h (named_children (h model)) layer prefix"
| "search_children d h [] layer prefix = Inr None"
| "search_children d h ((name, child) # rest) layer prefix =
     (let new_name = prefix @ ''.'' @ name in
      if VModule child = layer then Inr (Some new_name)
      else (case module_to_fqn d h child layer new_name of
              Inl e \<Rightarrow> Inl e
            | Inr (Some child_path) \<Rightarrow> Inr (Some child_path)
            | Inr None \<Rightarrow> search_children d h rest layer prefix))"

text \<open>\<^verbatim>\<open>path.split('.')\<close>.\<close>

fun split_dot :: "string \<Rightarrow> string list" where
  "split_dot [] = [[]]"
| "split_dot (c # cs) =
     (if c = CHR ''.'' then [] # split_dot cs
      else (case split_dot cs of [] \<Rightarrow> [[c]] | w # ws \<Rightarrow> (c # w) # ws))"

text \<open>The loop of \<^verbatim>\<open>_fqn_to_module\<close> over the components of the path.\<close>

fun walk :: "heap \<Rightarrow> pyval \<Rightarrow> string list \<Rightarrow> error + pyval" where
  "walk h model [] = Inr model"
| "walk h model (name # rest) =
     (case getattr_default h model name of
        Inl e \<Rightarrow> Inl e
      | Inr model' \<Rightarrow> if model' = VNone then Inr VNone else walk h model' rest)"

text \<open>
  \<^verbatim>\<open>_fqn_to_module(model, path)\<close>. \<^verbatim>\<open>path.split\<close> exists on strings only:
  \<^verbatim>\<open>None\<close> and the other values raise.
\<close>

definition fqn_to_module :: "heap \<Rightarrow> pyval \<Rightarrow> pyval \<Rightarrow> error + pyval" where
  "fqn_to_module h model path =
     (case path of
        VStr s \<Rightarrow> walk h model (split_dot s)
      | VTensor t \<Rightarrow> Inl TypeError
      | _ \<Rightarrow> Inl AttributeError)"

text \<open>
  The model fits the depth \<open>d\<close> when no chain of child modules from it is longer than
  the recursion of the resolver may go.
\<close>

fun fits :: "nat \<Rightarrow> heap \<Rightarrow> ref \<Rightarrow> bool" where
  "fits 0 h m = False"
| "fits (Suc d) h m = list_all (\<lambda>nc. fits d h (snd nc)) (named_children (h m))"



section \<open>The pruner\<close>

text \<open>
  The two warnings of the source. Each interpolates the type of the module, which is
  in \<^verbatim>\<open>NEEDS_MANUAL_UPDATE\<close> whenever the warning is issued.
\<close>

datatype warning = LayersNeedPrunedOutputs | MustUpdateMaskManually

text \<open>
  What the engine does that is seen from outside: a call of \<^verbatim>\<open>warnings.warn\<close> and a
  call of the policy's \<^verbatim>\<open>update_mask(module, **config)\<close>, in the order of the calls.
\<close>

datatype event = Warned warning | UpdateMask pyval config

record world =
  heap :: heap
  events :: "event list"

text \<open>
  The defaults of a pruner are policy values (numbers, strings, tensors,
  parametrization classes); \<^verbatim>\<open>copy.deepcopy\<close> of such a value is the value.
\<close>

datatype setting = SNone | SStr string | SInt int | STensor tensor | SClass param_class

fun setting_val :: "setting \<Rightarrow> pyval" where
  "setting_val SNone = VNone"
| "setting_val (SStr s) = VStr s"
| "setting_val (SInt i) = VInt i"
| "setting_val (STensor t) = VTensor t"
| "setting_val (SClass c) = VClass c"

definition deepcopy :: "(string \<rightharpoonup> setting) \<Rightarrow> config" where
  "deepcopy d = (\<lambda>k. map_option setting_val (d k))"

text \<open>An element of the \<^verbatim>\<open>config\<close> list: a module, or a dictionary.\<close>

datatype config_entry = ModuleEntry ref | DictEntry config

text \<open>The entry names the module \<open>r\<close>: it is the module, or its key \<^verbatim>\<open>module\<close> holds it.\<close>

definition entry_names :: "config_entry \<Rightarrow> ref \<Rightarrow> bool" where
  "entry_names entry r =
     (case entry of ModuleEntry r' \<Rightarrow> r' = r | DictEntry d \<Rightarrow> d ''module'' = Some (VModule r))"

text \<open>The handle of a registered forward hook: the module and the position of the hook.\<close>

type_synonym handle = "ref \<times> nat"

text \<open>
  The attributes of a \<^verbatim>\<open>BasePruner\<close>. \<^verbatim>\<open>model\<close>, \<^verbatim>\<open>config\<close> and \<^verbatim>\<open>prune_bias\<close>
  are set by \<^verbatim>\<open>prepare\<close> and do not exist before.
\<close>

record pruner =
  defaults :: "string \<rightharpoonup> setting"
  module_groups :: "config list"
  enable_mask_update :: bool
  pruner_model :: "ref option"
  pruner_config :: "config_entry list option option"
  prune_bias :: "bool option"
  activation_handles :: "handle list"
  bias_handles :: "handle list"

definition init :: "(string \<rightharpoonup> setting) option \<Rightarrow> pruner" where
  "init d =
     \<lparr>defaults = (case d of None \<Rightarrow> Map.empty | Some m \<Rightarrow> m),
      module_groups = [], enable_mask_update = True,
      pruner_model = None, pruner_config = None, prune_bias = None,
      activation_handles = [], bias_handles = []\<rparr>"

definition and_then :: "error + 'a \<Rightarrow> ('a \<Rightarrow> error + 'b) \<Rightarrow> error + 'b" where
  "and_then r f = (case r of Inl e \<Rightarrow> Inl e | Inr x \<Rightarrow> f x)"

text \<open>\<^verbatim>\<open>isinstance(module, tuple(kinds))\<close> and \<^verbatim>\<open>type(module) in kinds\<close>.\<close>

definition isinstance :: "cls \<Rightarrow> cls list \<Rightarrow> bool" where
  "isinstance c kinds = list_ex (issubclass c) kinds"

definition type_in :: "heap \<Rightarrow> pyval \<Rightarrow> cls list \<Rightarrow> bool" where
  "type_in h v kinds = (case v of VModule r \<Rightarrow> cls (h r) \<in> set kinds | _ \<Rightarrow> False)"

subsection \<open>Registration on a module\<close>

text \<open>
  \<^verbatim>\<open>register_buffer\<close> and \<^verbatim>\<open>register_parameter\<close> refuse a name that is an attribute
  already, unless it is in their own registry.
\<close>

definition register_buffer :: "module_obj \<Rightarrow> string \<Rightarrow> tensor \<Rightarrow> error + module_obj" where
  "register_buffer m name t =
     (if hasattr m name \<and> buffers m name = None then Inl KeyError
      else Inr (m\<lparr>buffers := (buffers m)(name \<mapsto> Some t)\<rparr>))"

definition register_parameter :: "module_obj \<Rightarrow> string \<Rightarrow> parameter \<Rightarrow> error + module_obj" where
  "register_parameter m name p =
     (if hasattr m name \<and> parameters m name = None then Inl KeyError
      else Inr (m\<lparr>parameters := (parameters m)(name \<mapsto> Some p)\<rparr>))"

text \<open>
  \<^verbatim>\<open>module.name = None\<close> for a registered name: \<^verbatim>\<open>__setattr__\<close> stores \<^verbatim>\<open>None\<close>
  in the registry that holds the name (parameters, then modules, then buffers).
\<close>

definition set_none :: "module_obj \<Rightarrow> string \<Rightarrow> module_obj" where
  "set_none m name =
     (if parameters m name \<noteq> None then m\<lparr>parameters := (parameters m)(name \<mapsto> None)\<rparr>
      else if map_of (modules m) name \<noteq> None
        then m\<lparr>modules := map (\<lambda>(k, c). if k = name then (k, None) else (k, c)) (modules m)\<rparr>
      else if buffers m name \<noteq> None then m\<lparr>buffers := (buffers m)(name \<mapsto> None)\<rparr>
      else m)"

text \<open>
  \<^verbatim>\<open>delattr(module, name)\<close>: \<^verbatim>\<open>__delattr__\<close> deletes the name from the first registry
  that holds it and raises when none does.
\<close>

definition delattr :: "module_obj \<Rightarrow> string \<Rightarrow> error + module_obj" where
  "delattr m name =
     (if parameters m name \<noteq> None then Inr (m\<lparr>parameters := (parameters m)(name := None)\<rparr>)
      else if buffers m name \<noteq> None then Inr (m\<lparr>buffers := (buffers m)(name := None)\<rparr>)
      else if map_of (modules m) name \<noteq> None
        then Inr (m\<lparr>modules := filter (\<lambda>kc. fst kc \<noteq> name) (modules m)\<rparr>)
      else Inl AttributeError)"

fun class_name :: "cls \<Rightarrow> string" where
  "class_name Linear = ''Linear''"
| "class_name Conv2d = ''Conv2d''"
| "class_name BatchNorm2d = ''BatchNorm2d''"
| "class_name (Other n) = n"
| "class_name (Subclass n b) = n"

text \<open>
  \<^verbatim>\<open>parametrize.register_parametrization(module, 'weight', p, unsafe=True)\<close>. On a
  weight that is parametrized already the transform is appended. Otherwise the weight
  moves from its registry into a new parametrization list, and the class of the module
  becomes a new subclass \<^verbatim>\<open>Parametrized<Class>\<close> that carries the property.
\<close>

definition register_parametrization :: "module_obj \<Rightarrow> param_obj \<Rightarrow> error + module_obj" where
  "register_parametrization m p =
     (case parametrizations m of
        Some pl \<Rightarrow> Inr (m\<lparr>parametrizations := Some (pl\<lparr>transforms := transforms pl @ [p]\<rparr>)\<rparr>)
      | None \<Rightarrow>
          (case parameters m ''weight'' of
             Some None \<Rightarrow> Inl AttributeError
           | Some (Some q) \<Rightarrow>
               Inr (m\<lparr>cls := Subclass (''Parametrized'' @ class_name (cls m)) (cls m),
                      parameters := (parameters m)(''weight'' := None),
                      parametrizations :=
                        Some \<lparr>transforms = [p], original = data q,
                              original_slot = ParameterSlot (requires_grad q)\<rparr>\<rparr>)
           | None \<Rightarrow>
               (case buffers m ''weight'' of
                  Some None \<Rightarrow> Inl AttributeError
                | Some (Some t) \<Rightarrow>
                    Inr (m\<lparr>cls := Subclass (''Parametrized'' @ class_name (cls m)) (cls m),
                           buffers := (buffers m)(''weight'' := None),
                           parametrizations :=
                             Some \<lparr>transforms = [p], original = t, original_slot = BufferSlot\<rparr>\<rparr>)
                | None \<Rightarrow> Inl ValueError)))"

text \<open>\<^verbatim>\<open>cls.__bases__[0]\<close>.\<close>

fun first_base :: "cls \<Rightarrow> cls" where
  "first_base (Subclass n b) = b"
| "first_base Conv2d = Other ''_ConvNd''"
| "first_base BatchNorm2d = Other ''_BatchNorm''"
| "first_base c = Other ''Module''"

text \<open>
  \<^verbatim>\<open>parametrize.remove_parametrizations(module, 'weight', leave_parametrized=True)\<close>:
  the current value of the parametrized weight becomes the stored weight, in the
  registry the original came from; the list is deleted and the class of the module is
  set back.
\<close>

definition remove_parametrizations :: "module_obj \<Rightarrow> error + module_obj" where
  "remove_parametrizations m =
     (case parametrizations m of
        None \<Rightarrow> Inl ValueError
      | Some pl \<Rightarrow>
          and_then (apply_transforms (transforms pl) (original pl)) (\<lambda>t.
            Inr (case original_slot pl of
                   ParameterSlot g \<Rightarrow>
                     m\<lparr>cls := first_base (cls m), parametrizations := None,
                       parameters := (parameters m)(''weight'' \<mapsto> Some \<lparr>data = t, requires_grad = g\<rparr>)\<rparr>
                 | BufferSlot \<Rightarrow>
                     m\<lparr>cls := first_base (cls m), parametrizations := None,
                       buffers := (buffers m)(''weight'' \<mapsto> Some t)\<rparr>)))"

text \<open>
  \<^verbatim>\<open>module.register_forward_hook(hook)\<close>: the hook is appended, the handle names its
  position.
\<close>

definition register_forward_hook :: "ref \<Rightarrow> module_obj \<Rightarrow> hook \<Rightarrow> module_obj \<times> handle" where
  "register_forward_hook r m k =
     (m\<lparr>forward_hooks := forward_hooks m @ [k]\<rparr>, (r, length (forward_hooks m)))"

text \<open>
  \<^verbatim>\<open>param(module.mask)\<close>: the value under the key \<^verbatim>\<open>parametrization\<close> is called with
  the mask; a value that is no class cannot be called.
\<close>

definition make_param :: "pyval \<Rightarrow> pyval \<Rightarrow> error + param_obj" where
  "make_param param arg =
     (case param of
        VClass c \<Rightarrow> Inr \<lparr>p_class = c, p_arg = arg, pruned_outputs = {}\<rparr>
      | _ \<Rightarrow> Inl TypeError)"

text \<open>\<^verbatim>\<open>config.get(key, default)\<close>.\<close>

definition config_get :: "config \<Rightarrow> string \<Rightarrow> pyval \<Rightarrow> pyval" where
  "config_get config key dflt = (case config key of None \<Rightarrow> dflt | Some v \<Rightarrow> v)"

text \<open>\<^verbatim>\<open>config[key]\<close>.\<close>

definition config_item :: "config \<Rightarrow> string \<Rightarrow> error + pyval" where
  "config_item config key = (case config key of None \<Rightarrow> Inl KeyError | Some v \<Rightarrow> Inr v)"

subsection \<open>Attaching the mask: \<^verbatim>\<open>_prepare\<close>\<close>

text \<open>
  \<^verbatim>\<open>module.weight.shape[0]\<close>: the weight must be there and be a tensor with a first
  dimension.
\<close>

definition weight_shape0 :: "module_obj \<Rightarrow> error + nat" where
  "weight_shape0 m =
     and_then (lookup_attr m ''weight'')
       (\<lambda>w. case w of VTensor t \<Rightarrow> shape0 t | _ \<Rightarrow> Inl AttributeError)"

text \<open>
  \<^verbatim>\<open>if getattr(module, 'mask', None) is None:
    module.register_buffer('mask', torch.tensor(module.weight.shape[0]))\<close>
\<close>

definition ensure_mask :: "module_obj \<Rightarrow> error + module_obj" where
  "ensure_mask m =
     and_then (getattr_or_none m ''mask'') (\<lambda>mask.
       if mask = VNone
       then and_then (weight_shape0 m) (\<lambda>n. register_buffer m ''mask'' (torch_tensor n))
       else Inr m)"

text \<open>
  The first part of the loop body of \<^verbatim>\<open>_prepare\<close>, on the module \<open>r\<close> with the
  object \<open>m\<close>: the branch on \<^verbatim>\<open>NEEDS_ZEROS\<close>. It returns the module and the handles
  added to \<^verbatim>\<open>activation_handles\<close>. The two assertions on the containers of the
  parametrization hold after every registration and are left out.
\<close>

definition attach_transform :: "config \<Rightarrow> ref \<Rightarrow> module_obj \<Rightarrow> error + module_obj \<times> handle list" where
  "attach_transform config r m =
     (if \<not> isinstance (cls m) NEEDS_ZEROS then
        and_then (ensure_mask m) (\<lambda>m1.
        and_then (lookup_attr m1 ''mask'') (\<lambda>mask.
        and_then (make_param (config_get config ''parametrization'' (VClass PruningParametrization)) mask) (\<lambda>p.
        and_then (register_parametrization m1 p) (\<lambda>m2.
          if isinstance (cls m2) SUPPORTED_MODULES
          then (case register_forward_hook r m2 (ActivationReconstruction r) of
                  (m3, hnd) \<Rightarrow> Inr (m3, [hnd]))
          else Inl NotImplementedError))))
      else
        and_then (ensure_mask m) (\<lambda>m1.
        and_then (lookup_attr m1 ''mask'') (\<lambda>mask.
        and_then (make_param (config_get config ''parametrization'' (VClass ZeroesParametrization)) mask) (\<lambda>p.
        and_then (register_parametrization m1 p) (\<lambda>m2. Inr (m2, []))))))"

text \<open>
  The second part of the loop body: the bias moves to the parameter \<^verbatim>\<open>_bias\<close>, and
  the bias hook is registered. It returns the module and the handle added to
  \<^verbatim>\<open>bias_handles\<close>.
\<close>

definition attach_bias :: "bool option \<Rightarrow> ref \<Rightarrow> module_obj \<Rightarrow> error + module_obj \<times> handle" where
  "attach_bias pb r m =
     and_then (lookup_attr m ''bias'') (\<lambda>bias.
     and_then
       (if bias \<noteq> VNone
        then (case bias of
                VTensor t \<Rightarrow>
                  and_then (register_parameter m ''_bias'' (Parameter (detach t)))
                    (\<lambda>m1. Inr (set_none m1 ''bias''))
              | _ \<Rightarrow> Inl AttributeError)
        else Inr m) (\<lambda>m2.
     (case pb of
        None \<Rightarrow> Inl AttributeError
      | Some b \<Rightarrow> Inr (register_forward_hook r m2 (BiasHook r b)))))"

definition prepare_module ::
  "bool option \<Rightarrow> config \<Rightarrow> ref \<Rightarrow> module_obj \<Rightarrow> error + module_obj \<times> handle list \<times> handle list"
where
  "prepare_module pb config r m =
     and_then (attach_transform config r m) (\<lambda>(m1, acts).
     and_then (attach_bias pb r m1) (\<lambda>(m2, hnd). Inr (m2, acts, [hnd])))"

text \<open>
  \<^verbatim>\<open>if use_path: module = _fqn_to_module(self.model, config['fqn'])
  else: module = config['module']\<close>
\<close>

definition target_module :: "pruner \<Rightarrow> heap \<Rightarrow> bool \<Rightarrow> config \<Rightarrow> error + pyval" where
  "target_module self h use_path config =
     (if use_path then
        (case pruner_model self of
           None \<Rightarrow> Inl AttributeError
         | Some model \<Rightarrow>
             and_then (config_item config ''fqn'') (\<lambda>fqn. fqn_to_module h (VModule model) fqn))
      else config_item config ''module'')"

text \<open>
  The loop of \<^verbatim>\<open>_prepare\<close> over \<^verbatim>\<open>self.module_groups\<close>. A target that is no module
  has none of the attributes the body reads.
\<close>

fun prepare_groups ::
  "pruner \<Rightarrow> bool \<Rightarrow> config list \<Rightarrow> heap \<times> handle list \<times> handle list \<Rightarrow>
     error + heap \<times> handle list \<times> handle list"
where
  "prepare_groups self use_path [] acc = Inr acc"
| "prepare_groups self use_path (config # rest) (h, acts, biases) =
     and_then (target_module self h use_path config) (\<lambda>module.
       case module of
         VModule r \<Rightarrow>
           and_then (prepare_module (prune_bias self) config r (h r)) (\<lambda>(m, a, b).
             prepare_groups self use_path rest (h(r := m), acts @ a, biases @ b))
       | _ \<Rightarrow> Inl AttributeError)"

text \<open>\<^verbatim>\<open>_prepare(use_path)\<close>.\<close>

definition private_prepare :: "bool \<Rightarrow> pruner \<Rightarrow> heap \<Rightarrow> error + pruner \<times> heap" where
  "private_prepare use_path self h =
     and_then (prepare_groups self use_path (module_groups self) (h, [], []))
       (\<lambda>(h', acts, biases).
          Inr (self\<lparr>activation_handles := acts, bias_handles := biases\<rparr>, h'))"

subsection \<open>Building the groups: \<^verbatim>\<open>prepare\<close>\<close>

text \<open>
  The \<^verbatim>\<open>for\<close> loop of the discovery over the children of the popped module: the
  configuration found so far, the stack and the events.
\<close>

fun scan_children ::
  "heap \<Rightarrow> bool \<Rightarrow> (string \<times> ref) list \<Rightarrow> ref list \<times> ref list \<times> event list \<Rightarrow>
     ref list \<times> ref list \<times> event list"
where
  "scan_children h also_prune_bias [] acc = acc"
| "scan_children h also_prune_bias ((name, child) # rest) (config, stack, evs) =
     (if cls (h child) \<in> set SUPPORTED_MODULES
      then scan_children h also_prune_bias rest (config @ [child], stack, evs)
      else scan_children h also_prune_bias rest
             (config, stack @ [child],
              if cls (h child) \<in> set NEEDS_MANUAL_UPDATE \<and> also_prune_bias
              then evs @ [Warned LayersNeedPrunedOutputs] else evs))"

text \<open>
  \<^verbatim>\<open>while stack: module = stack.pop(); ...\<close>. The loop need not end (a module that is
  its own descendant is pushed again and again): not returning is \<open>None\<close>.
\<close>

partial_function (option) discover ::
  "heap \<Rightarrow> bool \<Rightarrow> ref list \<Rightarrow> ref list \<Rightarrow> event list \<Rightarrow> (ref list \<times> event list) option"
where
  "discover h also_prune_bias stack config evs =
     (if stack = [] then Some (config, evs)
      else (case scan_children h also_prune_bias (named_children (h (last stack)))
                   (config, butlast stack, evs) of
              (config', stack', evs') \<Rightarrow> discover h also_prune_bias stack' config' evs'))"

text \<open>
  The body of the loop over \<^verbatim>\<open>self.config\<close>: the defaults, overlaid with the entry,
  and the path of the module without its leading dot.
\<close>

definition normalize_config ::
  "nat \<Rightarrow> heap \<Rightarrow> ref \<Rightarrow> (string \<rightharpoonup> setting) \<Rightarrow> config_entry \<Rightarrow> error + config"
where
  "normalize_config depth h model dflts module_config =
     (let local_args =
            deepcopy dflts ++
            (case module_config of
               ModuleEntry r \<Rightarrow> [''module'' \<mapsto> VModule r]
             | DictEntry d \<Rightarrow> d)
      in and_then (config_item local_args ''module'') (\<lambda>module.
         and_then (module_to_fqn depth h model module []) (\<lambda>module_fqn.
           Inr (local_args(''fqn'' \<mapsto>
                  (case module_fqn of
                     None \<Rightarrow> VNone
                   | Some [] \<Rightarrow> VStr []
                   | Some (c # cs) \<Rightarrow> VStr (if c = CHR ''.'' then cs else c # cs)))))))"

fun build_groups ::
  "nat \<Rightarrow> heap \<Rightarrow> ref \<Rightarrow> (string \<rightharpoonup> setting) \<Rightarrow> config_entry list \<Rightarrow> config list \<Rightarrow>
     error + config list"
where
  "build_groups depth h model dflts [] groups = Inr groups"
| "build_groups depth h model dflts (module_config # rest) groups =
     and_then (normalize_config depth h model dflts module_config) (\<lambda>local_args.
       build_groups depth h model dflts rest (groups @ [local_args]))"

text \<open>
  \<^verbatim>\<open>prepare(model, config, also_prune_bias)\<close>, with the recursion depth left to the
  path resolver. The result is \<open>None\<close> when the discovery does not return.
\<close>

definition prepare ::
  "nat \<Rightarrow> ref \<Rightarrow> config_entry list option \<Rightarrow> bool \<Rightarrow> pruner \<Rightarrow> world \<Rightarrow>
     (error + pruner \<times> world) option"
where
  "prepare depth model config also_prune_bias self w =
     (case (case config of
              Some entries \<Rightarrow> Some (entries, events w)
            | None \<Rightarrow>
                map_option (\<lambda>(found, evs). (map ModuleEntry found, evs))
                  (discover (heap w) also_prune_bias [model] [] (events w))) of
        None \<Rightarrow> None
      | Some (entries, evs) \<Rightarrow>
          Some (and_then
                  (build_groups depth (heap w) model (defaults self) entries (module_groups self))
                  (\<lambda>groups.
                and_then
                  (private_prepare False
                     (self\<lparr>module_groups := groups, pruner_model := Some model,
                           pruner_config := Some (Some entries),
                           prune_bias := Some also_prune_bias\<rparr>)
                     (heap w))
                  (\<lambda>(self', h'). Inr (self', \<lparr>heap = h', events = evs\<rparr>)))))"

subsection \<open>Finalizing: \<^verbatim>\<open>squash_mask\<close>\<close>

text \<open>
  \<^verbatim>\<open>getattr(module._parameters, 'mask', None)\<close> asks the dictionary object for an
  attribute, not for a key: a dictionary has no such attribute, whatever its keys.
\<close>

definition registry_attr :: "(string \<rightharpoonup> 'a) \<Rightarrow> string \<Rightarrow> pyval" where
  "registry_attr registry name = VNone"

text \<open>The truth value of the values the engine tests.\<close>

fun truthy :: "pyval \<Rightarrow> bool" where
  "truthy VNone = False"
| "truthy (VStr s) = (s \<noteq> [])"
| "truthy (VInt i) = (i \<noteq> 0)"
| "truthy (VTensor (Scalar v)) = (v \<noteq> 0)"
| "truthy v = True"

definition squash_module :: "module_obj \<Rightarrow> error + module_obj" where
  "squash_module m =
     and_then (remove_parametrizations m) (\<lambda>m1.
       delattr
         (if truthy (registry_attr (parameters m1) ''mask'')
          then m1\<lparr>parameters := (parameters m1)(''mask'' := None)\<rparr>
          else if truthy (registry_attr (buffers m1) ''mask'')
          then m1\<lparr>buffers := (buffers m1)(''mask'' := None)\<rparr>
          else m1)
         ''mask'')"

text \<open>
  The loop of \<^verbatim>\<open>squash_mask\<close>. A target that is no module has no parametrization
  to remove.
\<close>

fun squash_groups :: "pruner \<Rightarrow> bool \<Rightarrow> config list \<Rightarrow> heap \<Rightarrow> error + heap" where
  "squash_groups self use_path [] h = Inr h"
| "squash_groups self use_path (config # rest) h =
     and_then (target_module self h use_path config) (\<lambda>module.
       case module of
         VModule r \<Rightarrow>
           and_then (squash_module (h r)) (\<lambda>m. squash_groups self use_path rest (h(r := m)))
       | _ \<Rightarrow> Inl ValueError)"

definition squash_mask :: "bool \<Rightarrow> pruner \<Rightarrow> heap \<Rightarrow> error + heap" where
  "squash_mask use_path self h = squash_groups self use_path (module_groups self) h"

subsection \<open>Updating the masks: \<^verbatim>\<open>manual_mask_update\<close> and \<^verbatim>\<open>step\<close>\<close>

definition manual_mask_update :: "ref \<Rightarrow> nat set \<Rightarrow> heap \<Rightarrow> error + heap" where
  "manual_mask_update module pruned h =
     (case parametrizations (h module) of
        None \<Rightarrow> Inl AttributeError
      | Some pl \<Rightarrow>
          (case transforms pl of
             [] \<Rightarrow> Inl IndexError
           | p # ps \<Rightarrow>
               Inr (h(module := (h module)
                      \<lparr>parametrizations :=
                         Some (pl\<lparr>transforms :=
                                    p\<lparr>pruned_outputs := pruned_outputs p \<union> pruned\<rparr> # ps\<rparr>)\<rparr>))))"

text \<open>
  The abstract \<^verbatim>\<open>update_mask(layer, **kwargs)\<close> of a concrete pruner: it receives the
  module and the group and may change the heap or raise.
\<close>

type_synonym policy = "pyval \<Rightarrow> config \<Rightarrow> heap \<Rightarrow> error + heap"

fun step_groups :: "policy \<Rightarrow> pruner \<Rightarrow> bool \<Rightarrow> config list \<Rightarrow> world \<Rightarrow> error + world" where
  "step_groups update_mask self use_path [] w = Inr w"
| "step_groups update_mask self use_path (config # rest) w =
     and_then (target_module self (heap w) use_path config) (\<lambda>module.
       if type_in (heap w) module NEEDS_MANUAL_UPDATE
       then step_groups update_mask self use_path rest
              (w\<lparr>events := events w @ [Warned MustUpdateMaskManually]\<rparr>)
       else and_then (update_mask module config (heap w)) (\<lambda>h'.
              step_groups update_mask self use_path rest
                \<lparr>heap = h', events = events w @ [UpdateMask module config]\<rparr>))"

text \<open>
  \<^verbatim>\<open>step(use_path)\<close>. The scope \<^verbatim>\<open>torch.no_grad()\<close> of the loop has no part in
  the model: no gradient is recorded in it.
\<close>

definition step :: "policy \<Rightarrow> bool \<Rightarrow> pruner \<Rightarrow> world \<Rightarrow> error + world" where
  "step update_mask use_path self w =
     (if \<not> enable_mask_update self then Inr w
      else step_groups update_mask self use_path (module_groups self) w)"

subsection \<open>Scenarios and invariants\<close>

text \<open>\<^verbatim>\<open>prepare\<close>, and \<^verbatim>\<open>squash_mask()\<close> right after it.\<close>

definition prepare_then_squash ::
  "nat \<Rightarrow> ref \<Rightarrow> config_entry list option \<Rightarrow> bool \<Rightarrow> pruner \<Rightarrow> world \<Rightarrow> (error + heap) option"
where
  "prepare_then_squash depth model config also_prune_bias self w =
     map_option (\<lambda>res. and_then res (\<lambda>(self', w'). squash_mask False self' (heap w')))
       (prepare depth model config also_prune_bias self w)"

text \<open>
  A transform that prunes nothing: one of the two classes of the pruner, with an empty
  set of pruned outputs.
\<close>

definition unpruned :: "param_obj \<Rightarrow> bool" where
  "unpruned p =
     ((p_class p = PruningParametrization \<or> p_class p = ZeroesParametrization) \<and>
      pruned_outputs p = {})"

text \<open>
  The object of a module between \<^verbatim>\<open>prepare\<close> and \<^verbatim>\<open>squash_mask\<close> when nothing has
  been pruned: its class is the injected subclass of the class \<open>c\<close> it had, its weight
  parameter \<open>q\<close> is the original of a list of transforms that prune nothing, and its
  mask is a buffer.
\<close>

definition prepared_unpruned :: "cls \<Rightarrow> parameter \<Rightarrow> module_obj \<Rightarrow> bool" where
  "prepared_unpruned c q m =
     (cls m = Subclass (''Parametrized'' @ class_name c) c \<and>
      parameters m ''mask'' = None \<and> (\<exists>t. buffers m ''mask'' = Some (Some t)) \<and>
      (\<exists>pl. parametrizations m = Some pl \<and> original pl = data q \<and>
            original_slot pl = ParameterSlot (requires_grad q) \<and>
            list_all unpruned (transforms pl)))"

subsection \<open>What the discovery sees\<close>

text \<open>
  The modules the discovery pops from its stack, from the module \<open>m\<close> on: \<open>m\<close>
  itself, and every child of such a module whose type is not in
  \<^verbatim>\<open>SUPPORTED_MODULES\<close>. The modules it sees are the children of those.
\<close>

inductive traversed :: "heap \<Rightarrow> ref \<Rightarrow> ref \<Rightarrow> bool" for h :: heap where
  here: "traversed h m m"
| below: "(name, c) \<in> set (named_children (h m)) \<Longrightarrow> cls (h c) \<notin> set SUPPORTED_MODULES \<Longrightarrow>
          traversed h c x \<Longrightarrow> traversed h m x"

definition seen :: "heap \<Rightarrow> ref \<Rightarrow> ref \<Rightarrow> bool" where
  "seen h root c = (\<exists>m name. traversed h root m \<and> (name, c) \<in> set (named_children (h m)))"

text \<open>
  On a model that fits the depth \<open>d\<close>: the modules below \<open>m\<close>, one entry for each
  chain of children that leads to a module; the modules the discovery registers from
  \<open>m\<close> on, one entry for each time it sees a module of a supported type; and the
  number of modules it pops.
\<close>

fun descendants :: "nat \<Rightarrow> heap \<Rightarrow> ref \<Rightarrow> ref list" where
  "descendants 0 h m = []"
| "descendants (Suc d) h m =
     concat (map (\<lambda>nc. snd nc # descendants d h (snd nc)) (named_children (h m)))"

fun discovered :: "nat \<Rightarrow> heap \<Rightarrow> ref \<Rightarrow> ref list" where
  "discovered 0 h m = []"
| "discovered (Suc d) h m =
     concat (map (\<lambda>nc. if cls (h (snd nc)) \<in> set SUPPORTED_MODULES then [snd nc]
                        else discovered d h (snd nc))
               (named_children (h m)))"

fun pops :: "nat \<Rightarrow> heap \<Rightarrow> ref \<Rightarrow> nat" where
  "pops 0 h m = 0"
| "pops (Suc d) h m =
     Suc (sum_list (map (\<lambda>nc. if cls (h (snd nc)) \<in> set SUPPORTED_MODULES then 0
                               else pops d h (snd nc))
                      (named_children (h m))))"

section \<open>Example models\<close>

text \<open>A module object of a class, with empty registries.\<close>

definition leaf :: "cls \<Rightarrow> module_obj" where
  "leaf c = \<lparr>cls = c, parameters = Map.empty, buffers = Map.empty, modules = [],
             parametrizations = None, forward_hooks = []\<rparr>"


text \<open>
  A linear layer with three output units and two inputs, with a bias; a batch-norm
  layer with three channels.
\<close>

definition linear_obj :: module_obj where
  "linear_obj = (leaf Linear)
     \<lparr>parameters :=
        [''weight'' \<mapsto> Some (Parameter (Stack [Stack [Scalar 1, Scalar 2],
                                                Stack [Scalar 3, Scalar 4],
                                                Stack [Scalar 5, Scalar 6]])),
         ''bias'' \<mapsto> Some (Parameter (Stack [Scalar 7, Scalar 8, Scalar 9]))]\<rparr>"

definition bn_obj :: module_obj where
  "bn_obj = (leaf BatchNorm2d)
     \<lparr>parameters :=
        [''weight'' \<mapsto> Some (Parameter (Stack [Scalar 1, Scalar 1, Scalar 1])),
         ''bias'' \<mapsto> Some (Parameter (Stack [Scalar 0, Scalar 0, Scalar 0]))]\<rparr>"

text \<open>
  A net whose child \<^verbatim>\<open>fc\<close> is the linear layer 4 and whose child \<^verbatim>\<open>bn\<close> is the
  batch-norm layer 2; the linear layer 5 is not part of the net.
\<close>

definition heap_net :: heap where
  "heap_net = (\<lambda>r. leaf (Other ''Module''))
     (0 := (leaf (Other ''Net''))\<lparr>modules := [(''fc'', Some 4), (''bn'', Some 2)]\<rparr>,
      4 := linear_obj, 2 := bn_obj, 5 := linear_obj)"

definition world_net :: world where
  "world_net = \<lparr>heap = heap_net, events = []\<rparr>"

text \<open>A policy that leaves every mask as it is, and one that always raises.\<close>

definition idle_policy :: policy where
  "idle_policy module config h = Inr h"

definition failing_policy :: policy where
  "failing_policy module config h = Inl NotImplementedError"

text \<open>A pruner over the net with a group for each of the two layers, built by hand.\<close>

definition pruner_two :: pruner where
  "pruner_two = (init None)
     \<lparr>module_groups := [[''module'' \<mapsto> VModule 4, ''fqn'' \<mapsto> VStr ''fc''],
                        [''module'' \<mapsto> VModule 2, ''fqn'' \<mapsto> VStr ''bn'']],
      pruner_model := Some 0, prune_bias := Some True\<rparr>"





text \<open>
  A net in which the two containers \<^verbatim>\<open>a\<close> and \<^verbatim>\<open>b\<close> hold the same linear layer 4.
\<close>

definition heap_shared :: heap where
  "heap_shared = (\<lambda>r. leaf (Other ''Module''))
     (0 := (leaf (Other ''Net''))\<lparr>modules := [(''a'', Some 2), (''b'', Some 3)]\<rparr>,
      2 := (leaf (Other ''Sequential''))\<lparr>modules := [(''0'', Some 4)]\<rparr>,
      3 := (leaf (Other ''Sequential''))\<lparr>modules := [(''0'', Some 4)]\<rparr>,
      4 := linear_obj)"

section \<open>The path resolver\<close>















section \<open>The update cycle\<close>

text \<open>
  Claim C5: with \<^verbatim>\<open>enable_mask_update\<close> false, \<^verbatim>\<open>step\<close> returns at once: the heap
  (so every mask buffer) is as before, and no event is added (no call of the policy,
  no warning), whatever the policy, the groups and the path mode.
\<close>

theorem step_disabled_noop:
  "\<not> enable_mask_update self \<Longrightarrow> step update_mask use_path self w = Inr w"
  by (simp add: step_def)

theorem step_disabled_noop_witness:
  "\<not> enable_mask_update (pruner_two\<lparr>enable_mask_update := False\<rparr>) \<and>
   step failing_policy True (pruner_two\<lparr>enable_mask_update := False\<rparr>) world_net = Inr world_net"
  using step_disabled_noop[of "pruner_two\<lparr>enable_mask_update := False\<rparr>" failing_policy True world_net]
  by simp

text \<open>
  The events of a run of the loop of \<^verbatim>\<open>step\<close> that returns: one event for each group,
  in the order of the groups. The policy is one that keeps the targets of the groups
  and the types of the modules, as the contract of \<^verbatim>\<open>update_mask\<close> asks.
\<close>

lemma step_groups_trace:
  assumes stable: "\<forall>module config h h'. update_mask module config h = Inr h' \<longrightarrow>
             (\<forall>g. target_module self h' use_path g = target_module self h use_path g) \<and>
             (\<forall>v. type_in h' v NEEDS_MANUAL_UPDATE = type_in h v NEEDS_MANUAL_UPDATE)"
  shows "step_groups update_mask self use_path groups w = Inr w' \<Longrightarrow>
         \<exists>evs. events w' = events w @ evs \<and>
           list_all2 (\<lambda>config ev. \<exists>module.
               target_module self (heap w) use_path config = Inr module \<and>
               ev = (if type_in (heap w) module NEEDS_MANUAL_UPDATE
                     then Warned MustUpdateMaskManually else UpdateMask module config))
             groups evs"
proof (induction groups arbitrary: w)
  case Nil
  then show ?case by simp
next
  case (Cons config rest)
  from Cons.prems obtain module where
    tm: "target_module self (heap w) use_path config = Inr module"
    by (auto simp: and_then_def split: sum.splits)
  show ?case
  proof (cases "type_in (heap w) module NEEDS_MANUAL_UPDATE")
    case True
    let ?w1 = "w\<lparr>events := events w @ [Warned MustUpdateMaskManually]\<rparr>"
    have run: "step_groups update_mask self use_path rest ?w1 = Inr w'"
      using Cons.prems tm True by (simp add: and_then_def)
    from Cons.IH[OF run] obtain evs where
      evs: "events w' = events ?w1 @ evs"
        "list_all2 (\<lambda>config ev. \<exists>module.
               target_module self (heap ?w1) use_path config = Inr module \<and>
               ev = (if type_in (heap ?w1) module NEEDS_MANUAL_UPDATE
                     then Warned MustUpdateMaskManually else UpdateMask module config))
             rest evs"
      by blast
    have "events w' = events w @ (Warned MustUpdateMaskManually # evs)" using evs(1) by simp
    moreover have "list_all2 (\<lambda>config ev. \<exists>module.
               target_module self (heap w) use_path config = Inr module \<and>
               ev = (if type_in (heap w) module NEEDS_MANUAL_UPDATE
                     then Warned MustUpdateMaskManually else UpdateMask module config))
             (config # rest) (Warned MustUpdateMaskManually # evs)"
      using evs(2) tm True by simp
    ultimately show ?thesis by blast
  next
    case False
    from Cons.prems tm False obtain h' where
      um: "update_mask module config (heap w) = Inr h'"
      by (auto simp: and_then_def split: sum.splits)
    let ?w1 = "\<lparr>heap = h', events = events w @ [UpdateMask module config]\<rparr>"
    have run: "step_groups update_mask self use_path rest ?w1 = Inr w'"
      using Cons.prems tm False um by (simp add: and_then_def)
    note st = stable[rule_format, OF um]
    from Cons.IH[OF run] obtain evs where
      evs: "events w' = events ?w1 @ evs"
        "list_all2 (\<lambda>config ev. \<exists>module.
               target_module self (heap ?w1) use_path config = Inr module \<and>
               ev = (if type_in (heap ?w1) module NEEDS_MANUAL_UPDATE
                     then Warned MustUpdateMaskManually else UpdateMask module config))
             rest evs"
      by blast
    have "events w' = events w @ (UpdateMask module config # evs)" using evs(1) by simp
    moreover have "list_all2 (\<lambda>config ev. \<exists>module.
               target_module self (heap w) use_path config = Inr module \<and>
               ev = (if type_in (heap w) module NEEDS_MANUAL_UPDATE
                     then Warned MustUpdateMaskManually else UpdateMask module config))
             (config # rest) (UpdateMask module config # evs)"
      using evs(2) tm False st by simp
    ultimately show ?thesis by blast
  qed
qed

lemma and_then_assoc:
  "and_then (and_then r f) g = and_then r (\<lambda>x. and_then (f x) g)"
  by (simp add: and_then_def split: sum.splits)

text \<open>The loop over a list of groups that continues: first the front, then the rest.\<close>

lemma step_groups_append:
  "step_groups update_mask self use_path (pre @ rest) w =
     and_then (step_groups update_mask self use_path pre w)
       (step_groups update_mask self use_path rest)"
proof (induction pre arbitrary: w)
  case Nil
  then show ?case by (simp add: and_then_def)
next
  case (Cons g pre)
  show ?case
    by (simp add: Cons and_then_assoc if_distrib[of "\<lambda>r. and_then r _"] cong: if_cong)
qed

text \<open>
  Claim C6: with the switch enabled, \<^verbatim>\<open>step\<close> goes through the groups in registry
  order. When it reaches a group, after the groups before it, it resolves the module
  in the heap as it is then; if the exact type of the module is in
  \<^verbatim>\<open>NEEDS_MANUAL_UPDATE\<close> it adds the warning and goes on with the same heap, the
  policy not being called; otherwise it calls the policy with the module and the whole
  group. For a policy that keeps the targets of the groups and the types of the
  modules, a \<^verbatim>\<open>step\<close> that returns has added exactly one event for each group, in
  order: the warning or the call.
\<close>

theorem step_enabled_events:
  assumes "enable_mask_update self"
  shows "(\<forall>pre config post. module_groups self = pre @ config # post \<longrightarrow>
            step update_mask use_path self w =
              and_then (step_groups update_mask self use_path pre w) (\<lambda>w1.
              and_then (target_module self (heap w1) use_path config) (\<lambda>module.
                if type_in (heap w1) module NEEDS_MANUAL_UPDATE
                then step_groups update_mask self use_path post
                       (w1\<lparr>events := events w1 @ [Warned MustUpdateMaskManually]\<rparr>)
                else and_then (update_mask module config (heap w1)) (\<lambda>h'.
                       step_groups update_mask self use_path post
                         \<lparr>heap = h', events = events w1 @ [UpdateMask module config]\<rparr>)))) \<and>
         ((\<forall>module config h h'. update_mask module config h = Inr h' \<longrightarrow>
             (\<forall>g. target_module self h' use_path g = target_module self h use_path g) \<and>
             (\<forall>v. type_in h' v NEEDS_MANUAL_UPDATE = type_in h v NEEDS_MANUAL_UPDATE)) \<longrightarrow>
          (\<forall>w'. step update_mask use_path self w = Inr w' \<longrightarrow>
             (\<exists>evs. events w' = events w @ evs \<and>
                list_all2 (\<lambda>config ev. \<exists>module.
                    target_module self (heap w) use_path config = Inr module \<and>
                    ev = (if type_in (heap w) module NEEDS_MANUAL_UPDATE
                          then Warned MustUpdateMaskManually else UpdateMask module config))
                  (module_groups self) evs)))"
proof (intro conjI allI impI)
  fix pre config post
  show "step update_mask use_path self w =
              and_then (step_groups update_mask self use_path pre w) (\<lambda>w1.
              and_then (target_module self (heap w1) use_path config) (\<lambda>module.
                if type_in (heap w1) module NEEDS_MANUAL_UPDATE
                then step_groups update_mask self use_path post
                       (w1\<lparr>events := events w1 @ [Warned MustUpdateMaskManually]\<rparr>)
                else and_then (update_mask module config (heap w1)) (\<lambda>h'.
                       step_groups update_mask self use_path post
                         \<lparr>heap = h', events = events w1 @ [UpdateMask module config]\<rparr>)))"
    if mg: "module_groups self = pre @ config # post"
  proof -
    have "step_groups update_mask self use_path (config # post) =
            (\<lambda>w1. and_then (target_module self (heap w1) use_path config) (\<lambda>module.
                if type_in (heap w1) module NEEDS_MANUAL_UPDATE
                then step_groups update_mask self use_path post
                       (w1\<lparr>events := events w1 @ [Warned MustUpdateMaskManually]\<rparr>)
                else and_then (update_mask module config (heap w1)) (\<lambda>h'.
                       step_groups update_mask self use_path post
                         \<lparr>heap = h', events = events w1 @ [UpdateMask module config]\<rparr>)))"
      by (rule ext) simp
    then show ?thesis using assms mg by (simp add: step_def step_groups_append)
  qed
next
  fix w'
  assume st: "\<forall>module config h h'. update_mask module config h = Inr h' \<longrightarrow>
             (\<forall>g. target_module self h' use_path g = target_module self h use_path g) \<and>
             (\<forall>v. type_in h' v NEEDS_MANUAL_UPDATE = type_in h v NEEDS_MANUAL_UPDATE)"
    and run: "step update_mask use_path self w = Inr w'"
  have "step_groups update_mask self use_path (module_groups self) w = Inr w'"
    using assms run by (simp add: step_def)
  then show "\<exists>evs. events w' = events w @ evs \<and>
                list_all2 (\<lambda>config ev. \<exists>module.
                    target_module self (heap w) use_path config = Inr module \<and>
                    ev = (if type_in (heap w) module NEEDS_MANUAL_UPDATE
                          then Warned MustUpdateMaskManually else UpdateMask module config))
                  (module_groups self) evs"
    using step_groups_trace[OF st] by blast
qed

lemma step_two_run:
  "step idle_policy True pruner_two world_net =
     Inr \<lparr>heap = heap_net,
          events = [UpdateMask (VModule 4) [''module'' \<mapsto> VModule 4, ''fqn'' \<mapsto> VStr ''fc''],
                    Warned MustUpdateMaskManually]\<rparr>"
  by (simp add: step_def pruner_two_def init_def world_net_def idle_policy_def and_then_def
      target_module_def config_item_def fqn_to_module_def getattr_default_def
      getattr_or_none_def lookup_attr_def heap_net_def leaf_def linear_obj_def bn_obj_def
      type_in_def NEEDS_MANUAL_UPDATE_def)

theorem step_enabled_events_witness:
  "enable_mask_update pruner_two \<and>
   step idle_policy True pruner_two world_net =
     Inr \<lparr>heap = heap_net,
          events = [UpdateMask (VModule 4) [''module'' \<mapsto> VModule 4, ''fqn'' \<mapsto> VStr ''fc''],
                    Warned MustUpdateMaskManually]\<rparr> \<and>
   (\<exists>evs. events \<lparr>heap = heap_net,
          events = [UpdateMask (VModule 4) [''module'' \<mapsto> VModule 4, ''fqn'' \<mapsto> VStr ''fc''],
                    Warned MustUpdateMaskManually]\<rparr> = events world_net @ evs \<and>
      list_all2 (\<lambda>config ev. \<exists>module.
               target_module pruner_two (heap world_net) True config = Inr module \<and>
               ev = (if type_in (heap world_net) module NEEDS_MANUAL_UPDATE
                     then Warned MustUpdateMaskManually else UpdateMask module config))
             (module_groups pruner_two) evs)"
proof -
  have en: "enable_mask_update pruner_two" by (simp add: pruner_two_def init_def)
  have st: "\<forall>module config h h'. idle_policy module config h = Inr h' \<longrightarrow>
             (\<forall>g. target_module pruner_two h' True g = target_module pruner_two h True g) \<and>
             (\<forall>v. type_in h' v NEEDS_MANUAL_UPDATE = type_in h v NEEDS_MANUAL_UPDATE)"
    by (simp add: idle_policy_def)
  from step_enabled_events[OF en, of idle_policy True world_net] st step_two_run
  have "\<exists>evs. events \<lparr>heap = heap_net,
          events = [UpdateMask (VModule 4) [''module'' \<mapsto> VModule 4, ''fqn'' \<mapsto> VStr ''fc''],
                    Warned MustUpdateMaskManually]\<rparr> = events world_net @ evs \<and>
      list_all2 (\<lambda>config ev. \<exists>module.
               target_module pruner_two (heap world_net) True config = Inr module \<and>
               ev = (if type_in (heap world_net) module NEEDS_MANUAL_UPDATE
                     then Warned MustUpdateMaskManually else UpdateMask module config))
             (module_groups pruner_two) evs"
    by blast
  then show ?thesis using en step_two_run by blast
qed

section \<open>Unresolvable modules in the configuration\<close>

lemma heap_net_children:
  "named_children (heap_net 0) = [(''fc'', 4), (''bn'', 2)]"
  "named_children (heap_net 4) = []"
  "named_children (heap_net 2) = []"
  by (simp_all add: heap_net_def leaf_def linear_obj_def bn_obj_def named_children_def)







section \<open>Attaching the mask\<close>

lemma issubclass_Subclass_kind:
  "k \<in> {Linear, Conv2d, BatchNorm2d} \<Longrightarrow> issubclass (Subclass n b) k = issubclass b k"
  by auto

lemma isinstance_Subclass:
  "isinstance (Subclass n b) SUPPORTED_MODULES = isinstance b SUPPORTED_MODULES"
  "isinstance (Subclass n b) NEEDS_ZEROS = isinstance b NEEDS_ZEROS"
  by (auto simp: isinstance_def SUPPORTED_MODULES_def NEEDS_ZEROS_def)

text \<open>What the steps of the loop body change, and what they leave.\<close>

lemma ensure_mask_frame:
  assumes "ensure_mask m = Inr m1"
  shows "cls m1 = cls m" "parameters m1 = parameters m" "modules m1 = modules m"
    "parametrizations m1 = parametrizations m" "forward_hooks m1 = forward_hooks m"
    "k \<noteq> ''mask'' \<Longrightarrow> buffers m1 k = buffers m k"
  using assms
  by (auto simp: ensure_mask_def and_then_def register_buffer_def
      split: sum.splits if_splits)

lemma register_parametrization_frame:
  assumes "register_parametrization m p = Inr m2"
  shows "isinstance (cls m2) SUPPORTED_MODULES = isinstance (cls m) SUPPORTED_MODULES"
    "isinstance (cls m2) NEEDS_ZEROS = isinstance (cls m) NEEDS_ZEROS"
    "k \<noteq> ''weight'' \<Longrightarrow> parameters m2 k = parameters m k"
    "k \<noteq> ''weight'' \<Longrightarrow> buffers m2 k = buffers m k"
    "modules m2 = modules m" "forward_hooks m2 = forward_hooks m"
  using assms
  by (auto simp: register_parametrization_def isinstance_Subclass
      split: option.splits)

lemma attach_transform_frame:
  assumes "attach_transform config r m = Inr (m', acts)"
  shows "isinstance (cls m') SUPPORTED_MODULES = isinstance (cls m) SUPPORTED_MODULES"
    "isinstance (cls m') NEEDS_ZEROS = isinstance (cls m) NEEDS_ZEROS"
    "k \<noteq> ''weight'' \<Longrightarrow> parameters m' k = parameters m k"
    "k \<noteq> ''weight'' \<Longrightarrow> k \<noteq> ''mask'' \<Longrightarrow> buffers m' k = buffers m k"
    "modules m' = modules m"
    "set (forward_hooks m) \<subseteq> set (forward_hooks m')"
proof -
  from assms obtain m1 mk p m2 where
    s: "ensure_mask m = Inr m1" "register_parametrization m1 p = Inr m2"
       "m' = m2 \<or> m' = m2\<lparr>forward_hooks := forward_hooks m2 @ [ActivationReconstruction r]\<rparr>"
    by (auto simp: attach_transform_def and_then_def register_forward_hook_def
        split: sum.splits if_splits)
  note e = ensure_mask_frame[OF s(1)] and g = register_parametrization_frame[OF s(2)]
  show "isinstance (cls m') SUPPORTED_MODULES = isinstance (cls m) SUPPORTED_MODULES"
    using s(3) e(1) g(1) by auto
  show "isinstance (cls m') NEEDS_ZEROS = isinstance (cls m) NEEDS_ZEROS"
    using s(3) e(1) g(2) by auto
  show "k \<noteq> ''weight'' \<Longrightarrow> parameters m' k = parameters m k"
    using s(3) e(2) g(3) by auto
  show "k \<noteq> ''weight'' \<Longrightarrow> k \<noteq> ''mask'' \<Longrightarrow> buffers m' k = buffers m k"
    using s(3) e(6) g(4) by auto
  show "modules m' = modules m" using s(3) e(3) g(5) by auto
  show "set (forward_hooks m) \<subseteq> set (forward_hooks m')" using s(3) e(5) g(6) by auto
qed

lemma attach_bias_frame:
  assumes "attach_bias pb r m = Inr (m', hnd)"
  shows "cls m' = cls m" "parametrizations m' = parametrizations m"
    "k \<noteq> ''bias'' \<Longrightarrow> k \<noteq> ''_bias'' \<Longrightarrow> parameters m' k = parameters m k"
    "k \<noteq> ''bias'' \<Longrightarrow> buffers m' k = buffers m k"
    "\<exists>b. pb = Some b \<and> forward_hooks m' = forward_hooks m @ [BiasHook r b] \<and>
           hnd = (r, length (forward_hooks m))"
  using assms
  by (auto simp: attach_bias_def and_then_def register_parameter_def set_none_def
      register_forward_hook_def split: sum.splits if_splits pyval.splits option.splits)



section \<open>The loop of the attachment and the groups it runs over\<close>

lemma target_module_direct:
  "target_module self h False config = config_item config ''module''"
  by (simp add: target_module_def)

lemma prepare_groups_Cons:
  assumes "prepare_groups self False (g # rest) (h, a, b) = Inr res"
  shows "\<exists>r0 m x y. g ''module'' = Some (VModule r0) \<and>
           prepare_module (prune_bias self) g r0 (h r0) = Inr (m, x, y) \<and>
           prepare_groups self False rest (h(r0 := m), a @ x, b @ y) = Inr res"
  using assms
  by (auto simp: target_module_direct config_item_def and_then_def
      split: sum.splits option.splits pyval.splits prod.splits)

text \<open>
  A property of the object of a module that each run of the loop body on it keeps is
  kept by the loop; a property that a run of the body establishes holds after the loop
  for the module of each group.
\<close>

lemma prepare_groups_stable:
  assumes stab: "\<And>cfg m m' x y. G cfg \<Longrightarrow> Q m \<Longrightarrow>
             prepare_module (prune_bias self) cfg r m = Inr (m', x, y) \<Longrightarrow> Q m'"
  shows "prepare_groups self False groups (h, a, b) = Inr (h', a', b') \<Longrightarrow>
         \<forall>g \<in> set groups. G g \<Longrightarrow> Q (h r) \<Longrightarrow> Q (h' r)"
proof (induction groups arbitrary: h a b)
  case Nil
  then show ?case by simp
next
  case (Cons g rest)
  from prepare_groups_Cons[OF Cons.prems(1)] obtain r0 m x y where
    s: "g ''module'' = Some (VModule r0)"
       "prepare_module (prune_bias self) g r0 (h r0) = Inr (m, x, y)"
       "prepare_groups self False rest (h(r0 := m), a @ x, b @ y) = Inr (h', a', b')"
    by blast
  have "Q ((h(r0 := m)) r)"
  proof (cases "r0 = r")
    case True
    then show ?thesis using stab[of g "h r" m x y] Cons.prems(2,3) s(2) by simp
  next
    case False
    then show ?thesis using Cons.prems(3) by simp
  qed
  then show ?case using Cons.IH[OF s(3)] Cons.prems(2) by simp
qed

lemma prepare_groups_establish:
  assumes est: "\<And>cfg m m' x y. G cfg \<Longrightarrow> P m \<Longrightarrow>
             prepare_module (prune_bias self) cfg r m = Inr (m', x, y) \<Longrightarrow> Q m'"
    and stab: "\<And>cfg m m' x y. G cfg \<Longrightarrow> Q m \<Longrightarrow>
             prepare_module (prune_bias self) cfg r m = Inr (m', x, y) \<Longrightarrow> Q m'"
  shows "prepare_groups self False groups (h, a, b) = Inr (h', a', b') \<Longrightarrow>
         \<forall>g \<in> set groups. G g \<Longrightarrow> config \<in> set groups \<Longrightarrow>
         config ''module'' = Some (VModule r) \<Longrightarrow> P (h r) \<Longrightarrow> Q (h' r)"
proof (induction groups arbitrary: h a b)
  case Nil
  then show ?case by simp
next
  case (Cons g rest)
  from prepare_groups_Cons[OF Cons.prems(1)] obtain r0 m x y where
    s: "g ''module'' = Some (VModule r0)"
       "prepare_module (prune_bias self) g r0 (h r0) = Inr (m, x, y)"
       "prepare_groups self False rest (h(r0 := m), a @ x, b @ y) = Inr (h', a', b')"
    by blast
  have Gr: "\<forall>g \<in> set rest. G g" and Gg: "G g" using Cons.prems(2) by simp_all
  show ?case
  proof (cases "r0 = r")
    case True
    then have q: "Q ((h(r0 := m)) r)" using est[of g "h r" m x y] Gg Cons.prems(5) s(2) by simp
    show ?thesis
    proof (rule prepare_groups_stable[where G=G and Q=Q and r=r, OF _ s(3) Gr q])
      show "\<And>cfg m m' x y. G cfg \<Longrightarrow> Q m \<Longrightarrow>
             prepare_module (prune_bias self) cfg r m = Inr (m', x, y) \<Longrightarrow> Q m'"
        by (rule stab)
    qed
  next
    case False
    then have "config \<noteq> g" using s(1) Cons.prems(4) by auto
    then have "config \<in> set rest" using Cons.prems(3) by simp
    moreover have "P ((h(r0 := m)) r)" using False Cons.prems(5) by simp
    ultimately show ?thesis using Cons.IH[OF s(3) Gr _ Cons.prems(4)] by blast
  qed
qed


text \<open>The groups \<^verbatim>\<open>prepare\<close> builds hold the module of their entry.\<close>

lemma normalize_config_module:
  "normalize_config depth h model dflts entry = Inr g \<Longrightarrow> entry_names entry r \<Longrightarrow>
   g ''module'' = Some (VModule r)"
  by (auto simp: normalize_config_def entry_names_def config_item_def and_then_def Let_def
      map_add_def split: sum.splits option.splits config_entry.splits list.splits)

lemma build_groups_keeps:
  "build_groups depth h model dflts entries groups0 = Inr groups \<Longrightarrow>
   set groups0 \<subseteq> set groups"
proof (induction entries arbitrary: groups0)
  case Nil
  then show ?case by simp
next
  case (Cons e rest)
  from Cons.prems obtain g where
    "build_groups depth h model dflts rest (groups0 @ [g]) = Inr groups"
    by (auto simp: and_then_def split: sum.splits)
  from Cons.IH[OF this] show ?case by simp
qed

lemma build_groups_module:
  "build_groups depth h model dflts entries groups0 = Inr groups \<Longrightarrow>
   entry \<in> set entries \<Longrightarrow> entry_names entry r \<Longrightarrow>
   \<exists>g \<in> set groups. g ''module'' = Some (VModule r)"
proof (induction entries arbitrary: groups0)
  case Nil
  then show ?case by simp
next
  case (Cons e rest)
  from Cons.prems(1) obtain g where
    s: "normalize_config depth h model dflts e = Inr g"
       "build_groups depth h model dflts rest (groups0 @ [g]) = Inr groups"
    by (auto simp: and_then_def split: sum.splits)
  show ?case
  proof (cases "entry = e")
    case True
    then have "g ''module'' = Some (VModule r)"
      using normalize_config_module[OF s(1)] Cons.prems(3) by simp
    moreover have "g \<in> set groups" using build_groups_keeps[OF s(2)] by auto
    ultimately show ?thesis by blast
  next
    case False
    then show ?thesis using Cons.IH[OF s(2)] Cons.prems(2,3) by simp
  qed
qed

section \<open>What \<^verbatim>\<open>prepare\<close> returns\<close>

lemma prepare_groups_self:
  "prune_bias s1 = prune_bias s2 \<Longrightarrow>
   prepare_groups s1 False groups acc = prepare_groups s2 False groups acc"
proof (induction groups arbitrary: acc)
  case Nil
  then show ?case by simp
next
  case (Cons g rest)
  obtain h a b where acc: "acc = (h, a, b)" by (cases acc) auto
  show ?case unfolding acc using Cons
    by (auto simp: target_module_direct and_then_def split: sum.splits pyval.splits)
qed

text \<open>
  A \<^verbatim>\<open>prepare\<close> that returns normally has built its groups from the entries and has
  run the loop of the attachment over all groups of the pruner, from the heap it found.
\<close>

lemma prepare_returns:
  assumes "prepare depth model config b self w = Some (Inr (self', w'))"
  shows "prune_bias self' = Some b"
    and "prepare_groups self' False (module_groups self') (heap w, [], []) =
           Inr (heap w', activation_handles self', bias_handles self')"
    and "set (module_groups self) \<subseteq> set (module_groups self')"
    and "\<And>entries entry r. config = Some entries \<Longrightarrow> entry \<in> set entries \<Longrightarrow>
           entry_names entry r \<Longrightarrow> \<exists>g \<in> set (module_groups self'). g ''module'' = Some (VModule r)"
proof -
  from assms obtain entries evs groups h' acts biases where
    s: "config = Some entries \<or> config = None"
       "config = Some entries' \<Longrightarrow> entries' = entries"
       "build_groups depth (heap w) model (defaults self) entries (module_groups self) = Inr groups"
       "prepare_groups (self\<lparr>module_groups := groups, pruner_model := Some model,
            pruner_config := Some (Some entries), prune_bias := Some b\<rparr>) False groups
          (heap w, [], []) = Inr (h', acts, biases)"
       "self' = self\<lparr>module_groups := groups, pruner_model := Some model,
            pruner_config := Some (Some entries), prune_bias := Some b,
            activation_handles := acts, bias_handles := biases\<rparr>"
       "w' = \<lparr>heap = h', events = evs\<rparr>"
    for entries'
    by (auto simp: prepare_def private_prepare_def and_then_def
        split: option.splits sum.splits prod.splits)
  show "prune_bias self' = Some b" using s(5) by simp
  show "prepare_groups self' False (module_groups self') (heap w, [], []) =
           Inr (heap w', activation_handles self', bias_handles self')"
    using s(4) s(5) s(6)
      prepare_groups_self[of self' "self\<lparr>module_groups := groups, pruner_model := Some model,
            pruner_config := Some (Some entries), prune_bias := Some b\<rparr>" groups "(heap w, [], [])"]
    by simp
  show "set (module_groups self) \<subseteq> set (module_groups self')"
    using build_groups_keeps[OF s(3)] s(5) by simp
  show "\<exists>g \<in> set (module_groups self'). g ''module'' = Some (VModule r)"
    if "config = Some es" "entry \<in> set es" "entry_names entry r" for es entry r
    using build_groups_module[OF s(3), of entry r] that s(2)[of es] s(5) by simp
qed


lemmas body_defs =
  prepare_module_def attach_transform_def attach_bias_def ensure_mask_def
  getattr_or_none_def lookup_attr_def weight_shape0_def shape0_def torch_tensor_def
  register_buffer_def register_parameter_def register_parametrization_def
  register_forward_hook_def set_none_def make_param_def config_get_def hasattr_def
  isinstance_def NEEDS_ZEROS_def SUPPORTED_MODULES_def and_then_def Parameter_def detach_def

lemmas prepare_defs =
  prepare_def init_def private_prepare_def target_module_def config_item_def
  normalize_config_def deepcopy_def




section \<open>What the loop body does to a module\<close>

lemma prepare_module_split:
  assumes "prepare_module pb config r m = Inr (m', acts, bs)"
  shows "\<exists>m1 hnd. attach_transform config r m = Inr (m1, acts) \<and>
           attach_bias pb r m1 = Inr (m', hnd) \<and> bs = [hnd]"
  using assms by (auto simp: prepare_module_def and_then_def split: sum.splits prod.splits)

lemma attach_transform_split:
  assumes "attach_transform config r m = Inr (m1, acts)"
  shows "\<exists>ma mk p m2. ensure_mask m = Inr ma \<and> lookup_attr ma ''mask'' = Inr mk \<and>
           make_param (config_get config ''parametrization''
             (VClass (if isinstance (cls m) NEEDS_ZEROS then ZeroesParametrization
                      else PruningParametrization))) mk = Inr p \<and>
           register_parametrization ma p = Inr m2 \<and>
           (if isinstance (cls m) NEEDS_ZEROS then m1 = m2 \<and> acts = []
            else m1 = m2\<lparr>forward_hooks := forward_hooks m2 @ [ActivationReconstruction r]\<rparr> \<and>
                 acts = [(r, length (forward_hooks m2))])"
  using assms
  by (auto simp: attach_transform_def and_then_def register_forward_hook_def
      split: sum.splits if_splits)

lemma lookup_attr_same:
  assumes "name \<noteq> ''weight''" and "parameters m1 name = parameters m name"
    and "buffers m1 name = buffers m name" and "modules m1 = modules m"
  shows "lookup_attr m1 name = lookup_attr m name"
  using assms by (auto simp: lookup_attr_def split: option.splits)

text \<open>The mask buffer: created by the first run of the body, kept by the later ones.\<close>

lemma mask_created:
  assumes "\<not> hasattr m ''mask''" and "weight_shape0 m = Inr n"
    and "prepare_module pb config r m = Inr (m', acts, bs)"
  shows "parameters m' ''mask'' = None \<and> buffers m' ''mask'' = Some (Some (torch_tensor n))"
proof -
  from prepare_module_split[OF assms(3)] obtain m1 hnd where
    s: "attach_transform config r m = Inr (m1, acts)" "attach_bias pb r m1 = Inr (m', hnd)"
    by blast
  from attach_transform_split[OF s(1)] obtain ma p m2 where
    t: "ensure_mask m = Inr ma" "register_parametrization ma p = Inr m2"
       "m1 = m2 \<or> m1 = m2\<lparr>forward_hooks := forward_hooks m2 @ [ActivationReconstruction r]\<rparr>"
    by (auto split: if_splits)
  have absent: "parameters m ''mask'' = None" "buffers m ''mask'' = None"
    using assms(1) by (auto simp: hasattr_def lookup_attr_def split: option.splits)
  have ma: "parameters ma ''mask'' = None \<and> buffers ma ''mask'' = Some (Some (torch_tensor n))"
    using t(1) assms(1,2) absent
    by (auto simp: ensure_mask_def getattr_or_none_def hasattr_def register_buffer_def
        and_then_def split: sum.splits error.splits if_splits)
  have "parameters m2 ''mask'' = None \<and> buffers m2 ''mask'' = Some (Some (torch_tensor n))"
    using ma register_parametrization_frame(3,4)[OF t(2), of "''mask''"] by simp
  then have "parameters m1 ''mask'' = None \<and> buffers m1 ''mask'' = Some (Some (torch_tensor n))"
    using t(3) by auto
  then show ?thesis using attach_bias_frame(3,4)[OF s(2), of "''mask''"] by simp
qed

lemma mask_kept:
  assumes "parameters m ''mask'' = None \<and> buffers m ''mask'' = Some (Some t)"
    and "prepare_module pb config r m = Inr (m', acts, bs)"
  shows "parameters m' ''mask'' = None \<and> buffers m' ''mask'' = Some (Some t)"
proof -
  from prepare_module_split[OF assms(2)] obtain m1 hnd where
    s: "attach_transform config r m = Inr (m1, acts)" "attach_bias pb r m1 = Inr (m', hnd)"
    by blast
  from attach_transform_split[OF s(1)] obtain ma p m2 where
    t: "ensure_mask m = Inr ma" "register_parametrization ma p = Inr m2"
       "m1 = m2 \<or> m1 = m2\<lparr>forward_hooks := forward_hooks m2 @ [ActivationReconstruction r]\<rparr>"
    by (auto split: if_splits)
  have "ma = m" using t(1) assms(1)
    by (auto simp: ensure_mask_def getattr_or_none_def lookup_attr_def and_then_def
        split: sum.splits error.splits if_splits)
  then have "parameters m2 ''mask'' = None \<and> buffers m2 ''mask'' = Some (Some t)"
    using assms(1) register_parametrization_frame(3,4)[OF t(2), of "''mask''"] by simp
  then have "parameters m1 ''mask'' = None \<and> buffers m1 ''mask'' = Some (Some t)"
    using t(3) by auto
  then show ?thesis using attach_bias_frame(3,4)[OF s(2), of "''mask''"] by simp
qed

text \<open>The bias: moved by the first run of the body, left alone by the later ones.\<close>

lemma bias_moved:
  assumes "parameters m ''bias'' = Some (Some q)"
    and "prepare_module pb config r m = Inr (m', acts, bs)"
  shows "parameters m' ''_bias'' = Some (Some \<lparr>data = data q, requires_grad = True\<rparr>) \<and>
         parameters m' ''bias'' = Some None"
proof -
  from prepare_module_split[OF assms(2)] obtain m1 hnd where
    s: "attach_transform config r m = Inr (m1, acts)" "attach_bias pb r m1 = Inr (m', hnd)"
    by blast
  have "parameters m1 ''bias'' = Some (Some q)"
    using attach_transform_frame(3)[OF s(1), of "''bias''"] assms(1) by simp
  then show ?thesis using s(2)
    by (auto simp: attach_bias_def lookup_attr_def and_then_def register_parameter_def
        set_none_def register_forward_hook_def Parameter_def detach_def
        split: sum.splits if_splits option.splits)
qed

lemma bias_kept:
  assumes "parameters m ''_bias'' = Some (Some p) \<and> parameters m ''bias'' = Some None"
    and "prepare_module pb config r m = Inr (m', acts, bs)"
  shows "parameters m' ''_bias'' = Some (Some p) \<and> parameters m' ''bias'' = Some None"
proof -
  from prepare_module_split[OF assms(2)] obtain m1 hnd where
    s: "attach_transform config r m = Inr (m1, acts)" "attach_bias pb r m1 = Inr (m', hnd)"
    by blast
  have "parameters m1 ''_bias'' = Some (Some p) \<and> parameters m1 ''bias'' = Some None"
    using attach_transform_frame(3)[OF s(1), of "''bias''"]
      attach_transform_frame(3)[OF s(1), of "''_bias''"] assms(1) by simp
  then show ?thesis using s(2)
    by (auto simp: attach_bias_def lookup_attr_def and_then_def register_forward_hook_def
        split: sum.splits if_splits option.splits)
qed

lemma bias_hook_added:
  assumes "prepare_module (Some b) config r m = Inr (m', acts, bs)"
  shows "BiasHook r b \<in> set (forward_hooks m')"
proof -
  from prepare_module_split[OF assms] obtain m1 hnd where
    "attach_bias (Some b) r m1 = Inr (m', hnd)" by blast
  from attach_bias_frame(5)[OF this] show ?thesis by auto
qed

lemma hooks_kept:
  assumes "k \<in> set (forward_hooks m)" and "prepare_module pb config r m = Inr (m', acts, bs)"
  shows "k \<in> set (forward_hooks m')"
proof -
  from prepare_module_split[OF assms(2)] obtain m1 hnd where
    s: "attach_transform config r m = Inr (m1, acts)" "attach_bias pb r m1 = Inr (m', hnd)"
    by blast
  from attach_transform_frame(6)[OF s(1)] attach_bias_frame(5)[OF s(2)] assms(1)
  show ?thesis by auto
qed

section \<open>The mask buffer and the bias after \<^verbatim>\<open>prepare\<close>\<close>

text \<open>\<^verbatim>\<open>prepare\<close> with one entry, on a pruner without groups, when the body goes through.\<close>

lemma prepare_single:
  assumes "normalize_config depth (heap w) model (defaults self) entry = Inr g"
    and "g ''module'' = Some (VModule r)" and "module_groups self = []"
    and "prepare_module (Some b) g r (heap w r) = Inr (m, x, y)"
  shows "prepare depth model (Some [entry]) b self w =
           Some (Inr (self\<lparr>module_groups := [g], pruner_model := Some model,
                           pruner_config := Some (Some [entry]), prune_bias := Some b,
                           activation_handles := x, bias_handles := y\<rparr>,
                      \<lparr>heap = (heap w)(r := m), events = events w\<rparr>))"
  using assms
  by (simp add: prepare_def private_prepare_def target_module_direct config_item_def and_then_def)

lemma net_objects:
  "heap_net 4 = linear_obj" "heap_net 2 = bn_obj" "heap world_net = heap_net"
  "events world_net = []"
  by (simp_all add: heap_net_def world_net_def)

lemma fc_path: "module_to_fqn 3 heap_net 0 (VModule 4) [] = Inr (Some ''.fc'')"
  by (simp add: numeral_3_eq_3 heap_net_children)

lemma fc_group:
  "normalize_config 3 (heap world_net) 0 (defaults (init None)) (ModuleEntry 4) =
     Inr [''module'' \<mapsto> VModule 4, ''fqn'' \<mapsto> VStr ''fc'']"
  by (simp add: normalize_config_def deepcopy_def config_item_def and_then_def init_def
      net_objects fc_path)

lemma fc_body_returns:
  "\<exists>m x y. prepare_module (Some True) [''module'' \<mapsto> VModule 4, ''fqn'' \<mapsto> VStr ''fc''] 4
             linear_obj = Inr (m, x, y)"
proof -
  have "prepare_module (Some True) [''module'' \<mapsto> VModule 4, ''fqn'' \<mapsto> VStr ''fc''] 4
          linear_obj \<noteq> Inl e" for e
    by (simp add: body_defs linear_obj_def leaf_def)
  then show ?thesis by (metis old.sum.exhaust prod_cases3)
qed

lemma fc_prepare_returns:
  "\<exists>self' m. prepare 3 0 (Some [ModuleEntry 4]) True (init None) world_net =
      Some (Inr (self', \<lparr>heap = heap_net(4 := m), events = []\<rparr>)) \<and>
      module_groups self' = [[''module'' \<mapsto> VModule 4, ''fqn'' \<mapsto> VStr ''fc'']] \<and>
      prepare_module (Some True) [''module'' \<mapsto> VModule 4, ''fqn'' \<mapsto> VStr ''fc''] 4
        linear_obj = Inr (m, activation_handles self', bias_handles self')"
proof -
  from fc_body_returns obtain m x y where
    pm: "prepare_module (Some True) [''module'' \<mapsto> VModule 4, ''fqn'' \<mapsto> VStr ''fc''] 4
           linear_obj = Inr (m, x, y)" by blast
  have "prepare_module (Some True) [''module'' \<mapsto> VModule 4, ''fqn'' \<mapsto> VStr ''fc''] 4
           (heap world_net 4) = Inr (m, x, y)"
    using pm by (simp add: net_objects)
  from prepare_single[OF fc_group _ _ this] pm show ?thesis
    by (simp add: init_def net_objects)
qed

lemma linear_obj_facts:
  "\<not> hasattr linear_obj ''mask''" "weight_shape0 linear_obj = Inr 3"
  "cls linear_obj \<notin> set NEEDS_MANUAL_UPDATE"
  "parameters linear_obj ''bias'' = Some (Some (Parameter (Stack [Scalar 7, Scalar 8, Scalar 9])))"
  by (simp_all add: hasattr_def lookup_attr_def weight_shape0_def shape0_def and_then_def
      linear_obj_def leaf_def Parameter_def NEEDS_MANUAL_UPDATE_def)

text \<open>
  Claim C1, as stated, fails: the linear layer of the net has three output units and
  no mask before \<^verbatim>\<open>prepare\<close>; afterwards its mask buffer is the zero-dimensional
  tensor that holds the number 3. It has no width, and no entry for any unit.
\<close>

theorem mask_width_counterexample:
  "\<not> hasattr (heap world_net 4) ''mask'' \<and> weight_shape0 (heap world_net 4) = Inr 3 \<and>
   cls (heap world_net 4) \<notin> set NEEDS_MANUAL_UPDATE \<and>
   map_option (map_sum id (\<lambda>sw. buffers (heap (snd sw) 4) ''mask''))
     (prepare 3 0 (Some [ModuleEntry 4]) True (init None) world_net) =
   Some (Inr (Some (Some (Scalar 3)))) \<and>
   shape (Scalar 3) = [] \<and> shape (Scalar 3) \<noteq> [3]"
proof -
  from fc_prepare_returns obtain self' m where
    r: "prepare 3 0 (Some [ModuleEntry 4]) True (init None) world_net =
          Some (Inr (self', \<lparr>heap = heap_net(4 := m), events = []\<rparr>))"
       "prepare_module (Some True) [''module'' \<mapsto> VModule 4, ''fqn'' \<mapsto> VStr ''fc''] 4
          linear_obj = Inr (m, activation_handles self', bias_handles self')"
    by blast
  from mask_created[OF linear_obj_facts(1,2) r(2)]
  have "buffers m ''mask'' = Some (Some (Scalar 3))" by (simp add: torch_tensor_def)
  then show ?thesis using r(1) linear_obj_facts by (simp add: net_objects)
qed

text \<open>
  Claim C1, amended: after a \<^verbatim>\<open>prepare\<close> that returns normally, every module of a
  group (of a manual-update type or not) that had no attribute \<^verbatim>\<open>mask\<close> before
  carries a mask buffer that is the zero-dimensional tensor
  \<^verbatim>\<open>torch.tensor(weight.shape[0])\<close>: its value, not its width, is the number of output
  units the module had before, and it marks no unit.
\<close>

theorem mask_buffer_after_prepare:
  assumes "prepare depth model config b self w = Some (Inr (self', w'))"
    and "g \<in> set (module_groups self')" and "g ''module'' = Some (VModule r)"
    and "\<not> hasattr (heap w r) ''mask''" and "weight_shape0 (heap w r) = Inr n"
  shows "lookup_attr (heap w' r) ''mask'' = Inr (VTensor (Scalar (int n))) \<and>
         buffers (heap w' r) ''mask'' = Some (Some (torch_tensor n)) \<and>
         shape (torch_tensor n) = []"
proof -
  note ret = prepare_returns[OF assms(1)]
  have q: "parameters (heap w' r) ''mask'' = None \<and>
           buffers (heap w' r) ''mask'' = Some (Some (torch_tensor n))"
  proof (rule prepare_groups_establish[where G="\<lambda>_. True"
        and P="\<lambda>m. \<not> hasattr m ''mask'' \<and> weight_shape0 m = Inr n"
        and Q="\<lambda>m. parameters m ''mask'' = None \<and> buffers m ''mask'' = Some (Some (torch_tensor n))"
        and h="heap w" and r=r, OF _ _ ret(2) _ assms(2,3)])
    show "\<not> hasattr (heap w r) ''mask'' \<and> weight_shape0 (heap w r) = Inr n"
      using assms(4,5) by simp
  qed (use mask_created mask_kept in blast)+
  then show ?thesis by (simp add: lookup_attr_def torch_tensor_def)
qed

theorem mask_buffer_after_prepare_witness:
  "\<exists>self' w'. prepare 3 0 (Some [ModuleEntry 4]) True (init None) world_net = Some (Inr (self', w')) \<and>
     [''module'' \<mapsto> VModule 4, ''fqn'' \<mapsto> VStr ''fc''] \<in> set (module_groups self') \<and>
     \<not> hasattr (heap world_net 4) ''mask'' \<and> weight_shape0 (heap world_net 4) = Inr 3 \<and>
     lookup_attr (heap w' 4) ''mask'' = Inr (VTensor (Scalar 3)) \<and>
     buffers (heap w' 4) ''mask'' = Some (Some (torch_tensor 3))"
proof -
  from fc_prepare_returns obtain self' m where
    r: "prepare 3 0 (Some [ModuleEntry 4]) True (init None) world_net =
          Some (Inr (self', \<lparr>heap = heap_net(4 := m), events = []\<rparr>))"
       "module_groups self' = [[''module'' \<mapsto> VModule 4, ''fqn'' \<mapsto> VStr ''fc'']]"
    by blast
  have g: "[''module'' \<mapsto> VModule 4, ''fqn'' \<mapsto> VStr ''fc''] \<in> set (module_groups self')"
    using r(2) by simp
  have k: "[''module'' \<mapsto> VModule 4, ''fqn'' \<mapsto> VStr ''fc''] ''module'' = Some (VModule 4)"
    by simp
  have a: "\<not> hasattr (heap world_net 4) ''mask''" "weight_shape0 (heap world_net 4) = Inr 3"
    using linear_obj_facts by (simp_all add: net_objects)
  from mask_buffer_after_prepare[OF r(1) g k a] r(1) g a show ?thesis by auto
qed

text \<open>
  Claim C9, as stated, fails: the slot the bias of the linear layer moves to is a new
  \<^verbatim>\<open>nn.Parameter\<close> in the parameter registry, and it requires gradients, as every
  parameter does by default.
\<close>

theorem bias_slot_counterexample:
  "parameters (heap world_net 4) ''bias'' =
     Some (Some (Parameter (Stack [Scalar 7, Scalar 8, Scalar 9]))) \<and>
   map_option (map_sum id (\<lambda>sw. parameters (heap (snd sw) 4) ''_bias''))
     (prepare 3 0 (Some [ModuleEntry 4]) True (init None) world_net) =
   Some (Inr (Some (Some \<lparr>data = Stack [Scalar 7, Scalar 8, Scalar 9], requires_grad = True\<rparr>)))"
proof -
  from fc_prepare_returns obtain self' m where
    r: "prepare 3 0 (Some [ModuleEntry 4]) True (init None) world_net =
          Some (Inr (self', \<lparr>heap = heap_net(4 := m), events = []\<rparr>))"
       "prepare_module (Some True) [''module'' \<mapsto> VModule 4, ''fqn'' \<mapsto> VStr ''fc''] 4
          linear_obj = Inr (m, activation_handles self', bias_handles self')"
    by blast
  from bias_moved[OF linear_obj_facts(4) r(2)]
  have "parameters m ''_bias'' =
          Some (Some \<lparr>data = Stack [Scalar 7, Scalar 8, Scalar 9], requires_grad = True\<rparr>)"
    by (simp add: Parameter_def)
  then show ?thesis using r(1) linear_obj_facts(4) by (simp add: net_objects)
qed

text \<open>
  Claim C9, amended: after a \<^verbatim>\<open>prepare\<close> that returns normally, the module of every
  group has a bias hook among its forward hooks, built with the \<^verbatim>\<open>prune_bias\<close> flag;
  and where the module had a bias parameter, its values are in a new parameter
  \<^verbatim>\<open>_bias\<close>, which is trainable by default (\<^verbatim>\<open>requires_grad\<close> is true), and the
  primary reference \<^verbatim>\<open>bias\<close> holds \<^verbatim>\<open>None\<close>.
\<close>

theorem bias_after_prepare:
  assumes "prepare depth model config b self w = Some (Inr (self', w'))"
    and "g \<in> set (module_groups self')" and "g ''module'' = Some (VModule r)"
  shows "BiasHook r b \<in> set (forward_hooks (heap w' r)) \<and>
         (\<forall>q. parameters (heap w r) ''bias'' = Some (Some q) \<longrightarrow>
            parameters (heap w' r) ''_bias'' = Some (Some \<lparr>data = data q, requires_grad = True\<rparr>) \<and>
            parameters (heap w' r) ''bias'' = Some None \<and>
            lookup_attr (heap w' r) ''bias'' = Inr VNone)"
proof -
  note ret = prepare_returns[OF assms(1)]
  have hook: "BiasHook r b \<in> set (forward_hooks (heap w' r))"
  proof (rule prepare_groups_establish[where G="\<lambda>_. True" and P="\<lambda>m. True"
        and Q="\<lambda>m. BiasHook r b \<in> set (forward_hooks m)"
        and h="heap w" and r=r, OF _ _ ret(2) _ assms(2,3)])
  qed (use bias_hook_added hooks_kept ret(1) in auto)
  have moved: "parameters (heap w' r) ''_bias'' = Some (Some \<lparr>data = data q, requires_grad = True\<rparr>) \<and>
            parameters (heap w' r) ''bias'' = Some None"
    if q: "parameters (heap w r) ''bias'' = Some (Some q)" for q
  proof (rule prepare_groups_establish[where G="\<lambda>_. True"
        and P="\<lambda>m. parameters m ''bias'' = Some (Some q)"
        and Q="\<lambda>m. parameters m ''_bias'' = Some (Some \<lparr>data = data q, requires_grad = True\<rparr>) \<and>
                    parameters m ''bias'' = Some None"
        and h="heap w" and r=r, OF _ _ ret(2) _ assms(2,3) q])
  qed (use bias_moved bias_kept in blast)+
  have "lookup_attr (heap w' r) ''bias'' = Inr VNone"
    if "parameters (heap w' r) ''bias'' = Some None"
    using that by (simp add: lookup_attr_def)
  then show ?thesis using hook moved by blast
qed

theorem bias_after_prepare_witness:
  "\<exists>self' w'. prepare 3 0 (Some [ModuleEntry 4]) True (init None) world_net = Some (Inr (self', w')) \<and>
     [''module'' \<mapsto> VModule 4, ''fqn'' \<mapsto> VStr ''fc''] \<in> set (module_groups self') \<and>
     BiasHook 4 True \<in> set (forward_hooks (heap w' 4)) \<and>
     parameters (heap w' 4) ''_bias'' =
       Some (Some \<lparr>data = Stack [Scalar 7, Scalar 8, Scalar 9], requires_grad = True\<rparr>) \<and>
     lookup_attr (heap w' 4) ''bias'' = Inr VNone"
proof -
  from fc_prepare_returns obtain self' m where
    r: "prepare 3 0 (Some [ModuleEntry 4]) True (init None) world_net =
          Some (Inr (self', \<lparr>heap = heap_net(4 := m), events = []\<rparr>))"
       "module_groups self' = [[''module'' \<mapsto> VModule 4, ''fqn'' \<mapsto> VStr ''fc'']]"
    by blast
  have g: "[''module'' \<mapsto> VModule 4, ''fqn'' \<mapsto> VStr ''fc''] \<in> set (module_groups self')"
    using r(2) by simp
  have k: "[''module'' \<mapsto> VModule 4, ''fqn'' \<mapsto> VStr ''fc''] ''module'' = Some (VModule 4)"
    by simp
  have q: "parameters (heap world_net 4) ''bias'' =
             Some (Some (Parameter (Stack [Scalar 7, Scalar 8, Scalar 9])))"
    using linear_obj_facts(4) by (simp add: net_objects)
  from bias_after_prepare[OF r(1) g k] q r(1) g show ?thesis
    by (auto simp: Parameter_def)
qed

section \<open>Dispatch on the kind of a module in \<^verbatim>\<open>prepare\<close> and in \<^verbatim>\<open>step\<close>\<close>










section \<open>\<^verbatim>\<open>prepare\<close>, then \<^verbatim>\<open>squash_mask\<close>\<close>

lemma select_rows_none: "select_rows {} ts = ts"
  by (simp add: select_rows_def map_nth)

lemma zero_rows_none: "zero_rows {} ts = ts"
  by (simp add: zero_rows_def map_nth)

lemma forward_unpruned: "unpruned p \<Longrightarrow> forward p x = Inr x"
  by (cases x) (auto simp: unpruned_def forward_def select_rows_none zero_rows_none)

lemma apply_transforms_unpruned: "list_all unpruned ps \<Longrightarrow> apply_transforms ps x = Inr x"
  by (induction ps) (simp_all add: forward_unpruned)

lemma make_param_default_unpruned:
  "make_param (VClass (if z then ZeroesParametrization else PruningParametrization)) mk = Inr p
   \<Longrightarrow> unpruned p"
  by (auto simp: make_param_def unpruned_def)

text \<open>The first run of the body on a fresh module, and a later run on the same module.\<close>

lemma fresh_prepared:
  assumes "cls m = c \<and> parametrizations m = None \<and> parameters m ''weight'' = Some (Some q) \<and>
           \<not> hasattr m ''mask''"
    and "config ''parametrization'' = None"
    and "prepare_module pb config r m = Inr (m', acts, bs)"
  shows "prepared_unpruned c q m'"
proof -
  from prepare_module_split[OF assms(3)] obtain m1 hnd where
    s: "attach_transform config r m = Inr (m1, acts)" "attach_bias pb r m1 = Inr (m', hnd)"
    by blast
  from attach_transform_split[OF s(1)] assms(2) obtain ma mk p m2 where
    t: "ensure_mask m = Inr ma"
       "make_param (VClass (if isinstance (cls m) NEEDS_ZEROS then ZeroesParametrization
                            else PruningParametrization)) mk = Inr p"
       "register_parametrization ma p = Inr m2"
       "m1 = m2 \<or> m1 = m2\<lparr>forward_hooks := forward_hooks m2 @ [ActivationReconstruction r]\<rparr>"
    by (auto simp: config_get_def split: if_splits)
  note e = ensure_mask_frame[OF t(1)]
  have up: "unpruned p" using make_param_default_unpruned[OF t(2)] .
  have absent: "parameters m ''mask'' = None" "buffers m ''mask'' = None"
    using assms(1) by (auto simp: hasattr_def lookup_attr_def split: option.splits)
  have mk: "parameters ma ''mask'' = None \<and> (\<exists>t. buffers ma ''mask'' = Some (Some t))"
    using t(1) assms(1) absent
    by (auto simp: ensure_mask_def getattr_or_none_def hasattr_def register_buffer_def
        and_then_def split: sum.splits error.splits if_splits)
  have "prepared_unpruned c q m2"
    using t(3) e(1,2,4) assms(1) up mk
    by (auto simp: register_parametrization_def prepared_unpruned_def split: option.splits)
  then have "prepared_unpruned c q m1" using t(4) by (auto simp: prepared_unpruned_def)
  then show ?thesis
    using attach_bias_frame(1,2)[OF s(2)] attach_bias_frame(3,4)[OF s(2), of "''mask''"]
    by (simp add: prepared_unpruned_def)
qed

lemma prepared_again:
  assumes "prepared_unpruned c q m"
    and "config ''parametrization'' = None"
    and "prepare_module pb config r m = Inr (m', acts, bs)"
  shows "prepared_unpruned c q m'"
proof -
  from prepare_module_split[OF assms(3)] obtain m1 hnd where
    s: "attach_transform config r m = Inr (m1, acts)" "attach_bias pb r m1 = Inr (m', hnd)"
    by blast
  from attach_transform_split[OF s(1)] assms(2) obtain ma mk p m2 where
    t: "ensure_mask m = Inr ma"
       "make_param (VClass (if isinstance (cls m) NEEDS_ZEROS then ZeroesParametrization
                            else PruningParametrization)) mk = Inr p"
       "register_parametrization ma p = Inr m2"
       "m1 = m2 \<or> m1 = m2\<lparr>forward_hooks := forward_hooks m2 @ [ActivationReconstruction r]\<rparr>"
    by (auto simp: config_get_def split: if_splits)
  have up: "unpruned p" using make_param_default_unpruned[OF t(2)] .
  have "ma = m" using t(1) assms(1)
    by (auto simp: ensure_mask_def getattr_or_none_def lookup_attr_def and_then_def
        prepared_unpruned_def split: sum.splits error.splits if_splits)
  then have "prepared_unpruned c q m2"
    using t(3) assms(1) up
    by (auto simp: register_parametrization_def prepared_unpruned_def split: option.splits)
  then have "prepared_unpruned c q m1" using t(4) by (auto simp: prepared_unpruned_def)
  then show ?thesis
    using attach_bias_frame(1,2)[OF s(2)] attach_bias_frame(3,4)[OF s(2), of "''mask''"]
    by (simp add: prepared_unpruned_def)
qed

text \<open>Squashing a prepared module on which nothing has been pruned.\<close>

lemma squash_prepared:
  assumes "prepared_unpruned c q m"
  shows "\<exists>m''. squash_module m = Inr m'' \<and> cls m'' = c \<and>
           parameters m'' ''weight'' = Some (Some q) \<and> parametrizations m'' = None \<and>
           parameters m'' ''mask'' = None \<and> buffers m'' ''mask'' = None \<and>
           forward_hooks m'' = forward_hooks m \<and>
           parameters m'' ''bias'' = parameters m ''bias'' \<and>
           parameters m'' ''_bias'' = parameters m ''_bias''"
proof -
  from assms obtain pl t where
    pl: "parametrizations m = Some pl" "original pl = data q"
        "original_slot pl = ParameterSlot (requires_grad q)" "list_all unpruned (transforms pl)"
    and mk: "parameters m ''mask'' = None" "buffers m ''mask'' = Some (Some t)"
    and c: "cls m = Subclass (''Parametrized'' @ class_name c) c"
    by (auto simp: prepared_unpruned_def)
  have at: "apply_transforms (transforms pl) (original pl) = Inr (data q)"
    using apply_transforms_unpruned[OF pl(4)] pl(2) by simp
  show ?thesis
    using pl(1,3) at mk c
    by (simp add: squash_module_def remove_parametrizations_def and_then_def registry_attr_def
        delattr_def)
qed

lemma squash_module_unparametrized:
  "squash_module m = Inr m'' \<Longrightarrow> parametrizations m \<noteq> None"
  by (auto simp: squash_module_def remove_parametrizations_def and_then_def
      split: option.splits)

text \<open>
  The loop of \<^verbatim>\<open>squash_mask\<close> over groups of distinct modules, each of which can be
  squashed: it returns, each module of a group has been squashed once, and the other
  modules are as before.
\<close>

lemma squash_groups_distinct:
  assumes "distinct (map (\<lambda>g. g ''module'') groups)"
    and "\<forall>g \<in> set groups. \<exists>r m''. g ''module'' = Some (VModule r) \<and> squash_module (h r) = Inr m''"
  shows "\<exists>h''. squash_groups self False groups h = Inr h'' \<and>
           (\<forall>g \<in> set groups. \<forall>r. g ''module'' = Some (VModule r) \<longrightarrow>
              squash_module (h r) = Inr (h'' r)) \<and>
           (\<forall>r. (\<forall>g \<in> set groups. g ''module'' \<noteq> Some (VModule r)) \<longrightarrow> h'' r = h r)"
  using assms
proof (induction groups arbitrary: h)
  case Nil
  then show ?case by simp
next
  case (Cons g rest)
  from Cons.prems(2) obtain r0 m0 where
    g: "g ''module'' = Some (VModule r0)" "squash_module (h r0) = Inr m0" by auto
  have fresh: "\<forall>g' \<in> set rest. g' ''module'' \<noteq> Some (VModule r0)"
    using Cons.prems(1) g(1) by (auto simp: image_iff)
  have d: "distinct (map (\<lambda>g. g ''module'') rest)" using Cons.prems(1) by simp
  have sq: "\<forall>g' \<in> set rest. \<exists>r m''. g' ''module'' = Some (VModule r) \<and>
              squash_module ((h(r0 := m0)) r) = Inr m''"
  proof
    fix g' assume g': "g' \<in> set rest"
    with Cons.prems(2) obtain r m'' where
      r: "g' ''module'' = Some (VModule r)" "squash_module (h r) = Inr m''" by auto
    have "r \<noteq> r0" using fresh g' r(1) by auto
    then show "\<exists>r m''. g' ''module'' = Some (VModule r) \<and>
                 squash_module ((h(r0 := m0)) r) = Inr m''"
      using r by auto
  qed
  from Cons.IH[OF d sq] obtain h'' where
    ih: "squash_groups self False rest (h(r0 := m0)) = Inr h''"
        "\<forall>g \<in> set rest. \<forall>r. g ''module'' = Some (VModule r) \<longrightarrow>
              squash_module ((h(r0 := m0)) r) = Inr (h'' r)"
        "\<forall>r. (\<forall>g \<in> set rest. g ''module'' \<noteq> Some (VModule r)) \<longrightarrow> h'' r = (h(r0 := m0)) r"
    by blast
  have run: "squash_groups self False (g # rest) h = Inr h''"
    using g ih(1) by (simp add: target_module_direct config_item_def and_then_def)
  have at0: "h'' r0 = m0" using ih(3) fresh by simp
  have a: "squash_module (h r) = Inr (h'' r)"
    if "g' \<in> set (g # rest)" "g' ''module'' = Some (VModule r)" for g' r
  proof (cases "r = r0")
    case True
    then show ?thesis using g(2) at0 by simp
  next
    case False
    then have "g' \<in> set rest" using that g(1) by auto
    then show ?thesis using ih(2) that(2) False by auto
  qed
  have b: "h'' r = h r" if "\<forall>g' \<in> set (g # rest). g' ''module'' \<noteq> Some (VModule r)" for r
  proof -
    have "r \<noteq> r0" using that g(1) by auto
    then show ?thesis using ih(3) that by simp
  qed
  show ?case using run a b by blast
qed

lemma squash_single:
  assumes "module_groups self = [g]" and "g ''module'' = Some (VModule r)"
    and "squash_module (h r) = Inr m''"
  shows "squash_mask False self h = Inr (h(r := m''))"
  using assms
  by (simp add: squash_mask_def target_module_direct config_item_def and_then_def)

lemma linear_obj_fresh:
  "cls linear_obj = Linear \<and> parametrizations linear_obj = None \<and>
   parameters linear_obj ''weight'' =
     Some (Some (Parameter (Stack [Stack [Scalar 1, Scalar 2], Stack [Scalar 3, Scalar 4],
                                   Stack [Scalar 5, Scalar 6]]))) \<and>
   \<not> hasattr linear_obj ''mask''"
  using linear_obj_facts(1) by (simp add: linear_obj_def leaf_def)

text \<open>
  Claim C4, as stated, fails: the linear layer of the net has a bias before
  \<^verbatim>\<open>prepare\<close>; after \<^verbatim>\<open>prepare\<close> and \<^verbatim>\<open>squash_mask\<close>, with nothing pruned, its
  attribute \<^verbatim>\<open>bias\<close> is \<^verbatim>\<open>None\<close>: \<^verbatim>\<open>squash_mask\<close> does not put the bias back.
\<close>

theorem squash_bias_counterexample:
  "lookup_attr (heap world_net 4) ''bias'' = Inr (VTensor (Stack [Scalar 7, Scalar 8, Scalar 9])) \<and>
   map_option (map_sum id (\<lambda>h. lookup_attr (h 4) ''bias''))
     (prepare_then_squash 3 0 (Some [ModuleEntry 4]) True (init None) world_net) =
   Some (Inr (Inr VNone))"
proof -
  let ?g = "[''module'' \<mapsto> VModule 4, ''fqn'' \<mapsto> VStr ''fc'']"
  from fc_prepare_returns obtain self' m where
    r: "prepare 3 0 (Some [ModuleEntry 4]) True (init None) world_net =
          Some (Inr (self', \<lparr>heap = heap_net(4 := m), events = []\<rparr>))"
       "module_groups self' = [?g]"
       "prepare_module (Some True) ?g 4 linear_obj =
          Inr (m, activation_handles self', bias_handles self')"
    by blast
  have "prepared_unpruned Linear
          (Parameter (Stack [Stack [Scalar 1, Scalar 2], Stack [Scalar 3, Scalar 4],
                             Stack [Scalar 5, Scalar 6]])) m"
    by (rule fresh_prepared[OF linear_obj_fresh _ r(3)]) simp
  from squash_prepared[OF this] obtain m'' where
    sq: "squash_module m = Inr m''" "parameters m'' ''bias'' = parameters m ''bias''" by blast
  have "parameters m ''bias'' = Some None"
    using bias_moved[OF linear_obj_facts(4) r(3)] by simp
  then have b: "lookup_attr m'' ''bias'' = Inr VNone" using sq(2) by (simp add: lookup_attr_def)
  have "squash_mask False self' (heap_net(4 := m)) = Inr ((heap_net(4 := m))(4 := m''))"
    by (rule squash_single[OF r(2)]) (simp_all add: sq(1))
  then have "prepare_then_squash 3 0 (Some [ModuleEntry 4]) True (init None) world_net =
               Some (Inr ((heap_net(4 := m))(4 := m'')))"
    using r(1) by (simp add: prepare_then_squash_def and_then_def)
  moreover have "lookup_attr (heap world_net 4) ''bias'' =
                   Inr (VTensor (Stack [Scalar 7, Scalar 8, Scalar 9]))"
    by (simp add: net_objects lookup_attr_def linear_obj_def leaf_def Parameter_def)
  ultimately show ?thesis using b by simp
qed

text \<open>
  Claim C4, amended: after a \<^verbatim>\<open>prepare\<close> that returns normally, on groups of
  distinct modules that were not parametrized, had a weight parameter and no
  \<^verbatim>\<open>mask\<close>, with the transforms of the pruner and nothing pruned, \<^verbatim>\<open>squash_mask\<close>
  returns normally, and for the module of every group: the weight parameter is the
  original one, the class is the original class, no parametrization is registered, and
  \<^verbatim>\<open>mask\<close> is in neither the parameter nor the buffer registry. The bias is not put
  back: where the module had a bias parameter, \<^verbatim>\<open>bias\<close> still holds \<^verbatim>\<open>None\<close> and
  the original values are in the parameter \<^verbatim>\<open>_bias\<close>; the bias hook stays installed.
\<close>

theorem prepare_squash_roundtrip:
  assumes "prepare depth model config b self w = Some (Inr (self', w'))"
    and "distinct (map (\<lambda>g. g ''module'') (module_groups self'))"
    and "\<forall>g \<in> set (module_groups self'). g ''parametrization'' = None \<and>
           (\<exists>r q. g ''module'' = Some (VModule r) \<and> parametrizations (heap w r) = None \<and>
                  parameters (heap w r) ''weight'' = Some (Some q) \<and>
                  \<not> hasattr (heap w r) ''mask'')"
  shows "\<exists>h''. squash_mask False self' (heap w') = Inr h'' \<and>
           (\<forall>g \<in> set (module_groups self'). \<forall>r. g ''module'' = Some (VModule r) \<longrightarrow>
              parameters (h'' r) ''weight'' = parameters (heap w r) ''weight'' \<and>
              cls (h'' r) = cls (heap w r) \<and> parametrizations (h'' r) = None \<and>
              parameters (h'' r) ''mask'' = None \<and> buffers (h'' r) ''mask'' = None \<and>
              BiasHook r b \<in> set (forward_hooks (h'' r)) \<and>
              (\<forall>p. parameters (heap w r) ''bias'' = Some (Some p) \<longrightarrow>
                 parameters (h'' r) ''bias'' = Some None \<and>
                 parameters (h'' r) ''_bias'' = Some (Some \<lparr>data = data p, requires_grad = True\<rparr>)))"
proof -
  note ret = prepare_returns[OF assms(1)]
  have G: "\<forall>g \<in> set (module_groups self'). g ''parametrization'' = None"
    using assms(3) by blast
  have pu: "prepared_unpruned (cls (heap w r)) q (heap w' r)"
    if "g \<in> set (module_groups self')" "g ''module'' = Some (VModule r)"
       "parametrizations (heap w r) = None" "parameters (heap w r) ''weight'' = Some (Some q)"
       "\<not> hasattr (heap w r) ''mask''" for g r q
  proof (rule prepare_groups_establish[where G="\<lambda>g. g ''parametrization'' = None"
        and P="\<lambda>m. cls m = cls (heap w r) \<and> parametrizations m = None \<and>
                    parameters m ''weight'' = Some (Some q) \<and> \<not> hasattr m ''mask''"
        and Q="prepared_unpruned (cls (heap w r)) q"
        and h="heap w" and r=r, OF _ _ ret(2) G that(1,2)])
    show "cls (heap w r) = cls (heap w r) \<and> parametrizations (heap w r) = None \<and>
          parameters (heap w r) ''weight'' = Some (Some q) \<and> \<not> hasattr (heap w r) ''mask''"
      using that(3,4,5) by simp
  qed (use fresh_prepared prepared_again in blast)+
  have each: "\<exists>r q. g ''module'' = Some (VModule r) \<and>
                parameters (heap w r) ''weight'' = Some (Some q) \<and>
                prepared_unpruned (cls (heap w r)) q (heap w' r)"
    if "g \<in> set (module_groups self')" for g
    using assms(3) that pu by blast
  have "\<forall>g \<in> set (module_groups self'). \<exists>r m''. g ''module'' = Some (VModule r) \<and>
           squash_module (heap w' r) = Inr m''"
    using each squash_prepared by blast
  from squash_groups_distinct[OF assms(2) this, of self'] obtain h'' where
    h: "squash_groups self' False (module_groups self') (heap w') = Inr h''"
       "\<forall>g \<in> set (module_groups self'). \<forall>r. g ''module'' = Some (VModule r) \<longrightarrow>
              squash_module (heap w' r) = Inr (h'' r)"
    by blast
  have props: "parameters (h'' r) ''weight'' = parameters (heap w r) ''weight'' \<and>
              cls (h'' r) = cls (heap w r) \<and> parametrizations (h'' r) = None \<and>
              parameters (h'' r) ''mask'' = None \<and> buffers (h'' r) ''mask'' = None \<and>
              BiasHook r b \<in> set (forward_hooks (h'' r)) \<and>
              (\<forall>p. parameters (heap w r) ''bias'' = Some (Some p) \<longrightarrow>
                 parameters (h'' r) ''bias'' = Some None \<and>
                 parameters (h'' r) ''_bias'' = Some (Some \<lparr>data = data p, requires_grad = True\<rparr>))"
    if g: "g \<in> set (module_groups self')" "g ''module'' = Some (VModule r)" for g r
  proof -
    from each[OF g(1)] g(2) obtain q where
      q: "parameters (heap w r) ''weight'' = Some (Some q)"
         "prepared_unpruned (cls (heap w r)) q (heap w' r)" by auto
    have sq: "squash_module (heap w' r) = Inr (h'' r)" using h(2) g by blast
    from squash_prepared[OF q(2)] sq
    have s: "cls (h'' r) = cls (heap w r)" "parameters (h'' r) ''weight'' = Some (Some q)"
      "parametrizations (h'' r) = None" "parameters (h'' r) ''mask'' = None"
      "buffers (h'' r) ''mask'' = None" "forward_hooks (h'' r) = forward_hooks (heap w' r)"
      "parameters (h'' r) ''bias'' = parameters (heap w' r) ''bias''"
      "parameters (h'' r) ''_bias'' = parameters (heap w' r) ''_bias''"
      by auto
    have hook: "BiasHook r b \<in> set (forward_hooks (heap w' r))"
    proof (rule prepare_groups_establish[where G="\<lambda>_. True" and P="\<lambda>m. True"
          and Q="\<lambda>m. BiasHook r b \<in> set (forward_hooks m)"
          and h="heap w" and r=r, OF _ _ ret(2) _ g])
    qed (use bias_hook_added hooks_kept ret(1) in auto)
    have moved: "parameters (heap w' r) ''_bias'' = Some (Some \<lparr>data = data p, requires_grad = True\<rparr>) \<and>
            parameters (heap w' r) ''bias'' = Some None"
      if p: "parameters (heap w r) ''bias'' = Some (Some p)" for p
    proof (rule prepare_groups_establish[where G="\<lambda>_. True"
          and P="\<lambda>m. parameters m ''bias'' = Some (Some p)"
          and Q="\<lambda>m. parameters m ''_bias'' = Some (Some \<lparr>data = data p, requires_grad = True\<rparr>) \<and>
                      parameters m ''bias'' = Some None"
          and h="heap w" and r=r, OF _ _ ret(2) _ g p])
    qed (use bias_moved bias_kept in blast)+
    show ?thesis using s q(1) hook moved by simp
  qed
  show ?thesis using h(1) props by (auto simp: squash_mask_def)
qed

theorem prepare_squash_roundtrip_witness:
  "\<exists>self' w' h''.
     prepare 3 0 (Some [ModuleEntry 4]) True (init None) world_net = Some (Inr (self', w')) \<and>
     module_groups self' = [[''module'' \<mapsto> VModule 4, ''fqn'' \<mapsto> VStr ''fc'']] \<and>
     parametrizations (heap world_net 4) = None \<and> \<not> hasattr (heap world_net 4) ''mask'' \<and>
     squash_mask False self' (heap w') = Inr h'' \<and>
     parameters (h'' 4) ''weight'' = parameters (heap world_net 4) ''weight'' \<and>
     cls (h'' 4) = Linear \<and> parametrizations (h'' 4) = None \<and>
     parameters (h'' 4) ''mask'' = None \<and> buffers (h'' 4) ''mask'' = None \<and>
     parameters (h'' 4) ''bias'' = Some None"
proof -
  let ?g = "[''module'' \<mapsto> VModule 4, ''fqn'' \<mapsto> VStr ''fc'']"
  from fc_prepare_returns obtain self' m where
    r: "prepare 3 0 (Some [ModuleEntry 4]) True (init None) world_net =
          Some (Inr (self', \<lparr>heap = heap_net(4 := m), events = []\<rparr>))"
       "module_groups self' = [?g]"
    by blast
  have d: "distinct (map (\<lambda>g. g ''module'') (module_groups self'))" using r(2) by simp
  have f: "parametrizations (heap world_net 4) = None" "\<not> hasattr (heap world_net 4) ''mask''"
    "cls (heap world_net 4) = Linear"
    "parameters (heap world_net 4) ''bias'' =
       Some (Some (Parameter (Stack [Scalar 7, Scalar 8, Scalar 9])))"
    using linear_obj_fresh linear_obj_facts(4) by (simp_all add: net_objects)
  have a: "\<forall>g \<in> set (module_groups self'). g ''parametrization'' = None \<and>
           (\<exists>r q. g ''module'' = Some (VModule r) \<and> parametrizations (heap world_net r) = None \<and>
                  parameters (heap world_net r) ''weight'' = Some (Some q) \<and>
                  \<not> hasattr (heap world_net r) ''mask'')"
    using r(2) linear_obj_fresh by (simp add: net_objects)
  from prepare_squash_roundtrip[OF r(1) d a] obtain h'' where
    h: "squash_mask False self' (heap \<lparr>heap = heap_net(4 := m), events = []\<rparr>) = Inr h''"
       "\<forall>g \<in> set (module_groups self'). \<forall>r. g ''module'' = Some (VModule r) \<longrightarrow>
              parameters (h'' r) ''weight'' = parameters (heap world_net r) ''weight'' \<and>
              cls (h'' r) = cls (heap world_net r) \<and> parametrizations (h'' r) = None \<and>
              parameters (h'' r) ''mask'' = None \<and> buffers (h'' r) ''mask'' = None \<and>
              BiasHook r True \<in> set (forward_hooks (h'' r)) \<and>
              (\<forall>p. parameters (heap world_net r) ''bias'' = Some (Some p) \<longrightarrow>
                 parameters (h'' r) ''bias'' = Some None \<and>
                 parameters (h'' r) ''_bias'' = Some (Some \<lparr>data = data p, requires_grad = True\<rparr>))"
    by blast
  from h(2) r(2) f have
    "parameters (h'' 4) ''weight'' = parameters (heap world_net 4) ''weight'' \<and>
     cls (h'' 4) = Linear \<and> parametrizations (h'' 4) = None \<and>
     parameters (h'' 4) ''mask'' = None \<and> buffers (h'' 4) ''mask'' = None \<and>
     parameters (h'' 4) ''bias'' = Some None"
    by simp
  then show ?thesis using r h(1) f(1,2) by blast
qed

section \<open>The discovery of the modules\<close>

lemma manual_update_supported:
  "c \<in> set NEEDS_MANUAL_UPDATE \<Longrightarrow> c \<in> set SUPPORTED_MODULES"
  by (simp add: NEEDS_MANUAL_UPDATE_def SUPPORTED_MODULES_def)

text \<open>
  The loop over the children appends the children of a supported type to the
  configuration and the others to the stack. It never warns: the warning is in the
  branch of the types that are not supported, and asks for a manual-update type, which
  is supported.
\<close>

lemma scan_children_eq:
  "scan_children h b cs (config, stack, evs) =
     (config @ map snd (filter (\<lambda>nc. cls (h (snd nc)) \<in> set SUPPORTED_MODULES) cs),
      stack @ map snd (filter (\<lambda>nc. cls (h (snd nc)) \<notin> set SUPPORTED_MODULES) cs),
      evs)"
proof (induction cs arbitrary: config stack)
  case Nil
  then show ?case by simp
next
  case (Cons nc cs)
  obtain name child where nc: "nc = (name, child)" by (cases nc)
  show ?case using Cons manual_update_supported[of "cls (h child)"] by (auto simp: nc)
qed

lemma fits_mono: "fits d h m \<Longrightarrow> fits (Suc d) h m"
proof (induction d arbitrary: m)
  case 0
  then show ?case by simp
next
  case (Suc d)
  then show ?case by (auto simp: list_all_iff)
qed

lemma discovered_stable: "fits d h m \<Longrightarrow> discovered (Suc d) h m = discovered d h m"
proof (induction d arbitrary: m)
  case 0
  then show ?case by simp
next
  case (Suc d)
  have "\<forall>nc \<in> set (named_children (h m)). discovered (Suc d) h (snd nc) = discovered d h (snd nc)"
    using Suc by (auto simp: list_all_iff)
  then have "map (\<lambda>nc. if cls (h (snd nc)) \<in> set SUPPORTED_MODULES then [snd nc]
                        else discovered (Suc d) h (snd nc)) (named_children (h m)) =
             map (\<lambda>nc. if cls (h (snd nc)) \<in> set SUPPORTED_MODULES then [snd nc]
                        else discovered d h (snd nc)) (named_children (h m))"
    by (intro map_cong) auto
  then show ?case by (simp only: discovered.simps)
qed

lemma pops_stable: "fits d h m \<Longrightarrow> pops (Suc d) h m = pops d h m"
proof (induction d arbitrary: m)
  case 0
  then show ?case by simp
next
  case (Suc d)
  have "\<forall>nc \<in> set (named_children (h m)). pops (Suc d) h (snd nc) = pops d h (snd nc)"
    using Suc by (auto simp: list_all_iff)
  then have "map (\<lambda>nc. if cls (h (snd nc)) \<in> set SUPPORTED_MODULES then 0
                        else pops (Suc d) h (snd nc)) (named_children (h m)) =
             map (\<lambda>nc. if cls (h (snd nc)) \<in> set SUPPORTED_MODULES then 0
                        else pops d h (snd nc)) (named_children (h m))"
    by (intro map_cong) auto
  then show ?case by (simp only: pops.simps)
qed

text \<open>One level of the recursion, in terms of the two lists the loop builds.\<close>

lemma discovered_level:
  "mset (concat (map (\<lambda>nc. if cls (h (snd nc)) \<in> set SUPPORTED_MODULES then [snd nc]
                            else discovered d h (snd nc)) cs)) =
   mset (map snd (filter (\<lambda>nc. cls (h (snd nc)) \<in> set SUPPORTED_MODULES) cs)) +
   mset (concat (map (discovered d h)
           (map snd (filter (\<lambda>nc. cls (h (snd nc)) \<notin> set SUPPORTED_MODULES) cs))))"
  by (induction cs) auto

lemma pops_level:
  "sum_list (map (\<lambda>nc. if cls (h (snd nc)) \<in> set SUPPORTED_MODULES then 0
                        else pops d h (snd nc)) cs) =
   sum_list (map (pops d h)
     (map snd (filter (\<lambda>nc. cls (h (snd nc)) \<notin> set SUPPORTED_MODULES) cs)))"
  by (induction cs) auto

lemma fits_children:
  assumes "fits d h m"
  shows "\<exists>d'. d = Suc d' \<and> (\<forall>nc \<in> set (named_children (h m)). fits d' h (snd nc))"
  using assms by (cases d) (auto simp: list_all_iff)

lemma map_stable:
  assumes "\<forall>c \<in> set cs. f (Suc d) h c = f d h c"
  shows "map (f (Suc d) h) cs = map (f d h) cs"
  using assms by (intro map_cong) auto

lemma mset_rearrange:
  fixes F :: "'a multiset"
  assumes "YU = Y + U" and "T = Y + D" and "F = (C + S) + YU" and "D = S + U"
  shows "F = C + T"
  using assms by (simp add: ac_simps)

text \<open>
  On stacked modules that fit the depth, the loop of the discovery returns; it has
  added no event, and it has registered what is registered from each stacked module.
\<close>

lemma discover_fits:
  "list_all (fits d h) stack \<Longrightarrow>
   \<exists>found. discover h b stack config evs = Some (found, evs) \<and>
     mset found = mset config + mset (concat (map (discovered d h) stack))"
proof (induction "sum_list (map (pops d h) stack)" arbitrary: stack config rule: less_induct)
  case less
  show ?case
  proof (cases "stack = []")
    case True
    then show ?thesis by (subst discover.simps) simp
  next
    case False
    then obtain ys m where st: "stack = ys @ [m]" by (metis rev_exhaust)
    let ?cs = "named_children (h m)"
    let ?sup = "map snd (filter (\<lambda>nc. cls (h (snd nc)) \<in> set SUPPORTED_MODULES) ?cs)"
    let ?unsup = "map snd (filter (\<lambda>nc. cls (h (snd nc)) \<notin> set SUPPORTED_MODULES) ?cs)"
    have fm: "fits d h m" and fys: "list_all (fits d h) ys" using less.prems st by simp_all
    from fits_children[OF fm] obtain d' where
      d: "d = Suc d'" "\<forall>nc \<in> set ?cs. fits d' h (snd nc)" by blast
    have fu: "\<forall>c \<in> set ?unsup. fits d' h c" using d(2) by auto
    have unfold: "discover h b stack config evs = discover h b (ys @ ?unsup) (config @ ?sup) evs"
      by (subst discover.simps) (simp add: st scan_children_eq)
    have "\<forall>c \<in> set ?unsup. fits d h c" unfolding d(1) using fu fits_mono by blast
    then have fits': "list_all (fits d h) (ys @ ?unsup)"
      using fys unfolding list_all_iff by auto
    have pm: "map (pops d h) ?unsup = map (pops d' h) ?unsup"
      unfolding d(1) by (rule map_stable[where f=pops]) (use fu pops_stable in blast)
    have dm: "map (discovered d h) ?unsup = map (discovered d' h) ?unsup"
      unfolding d(1) by (rule map_stable[where f=discovered]) (use fu discovered_stable in blast)
    have pd: "pops d h m = Suc (sum_list (map (pops d' h) ?unsup))"
      unfolding d(1) by (simp only: pops.simps pops_level)
    have "sum_list (map (pops d h) (ys @ ?unsup)) =
            sum_list (map (pops d h) ys) + sum_list (map (pops d' h) ?unsup)"
      by (simp only: map_append sum_list_append pm)
    moreover have "sum_list (map (pops d h) stack) = sum_list (map (pops d h) ys) + pops d h m"
      by (simp add: st)
    ultimately have less': "sum_list (map (pops d h) (ys @ ?unsup)) < sum_list (map (pops d h) stack)"
      using pd by linarith
    from less.hyps[OF less' fits', of "config @ ?sup"] obtain found where
      f: "discover h b (ys @ ?unsup) (config @ ?sup) evs = Some (found, evs)"
         "mset found = mset (config @ ?sup) + mset (concat (map (discovered d h) (ys @ ?unsup)))"
      by blast
    have dd: "mset (discovered d h m) = mset ?sup + mset (concat (map (discovered d' h) ?unsup))"
      unfolding d(1) by (simp only: discovered.simps discovered_level)
    have "mset (concat (map (discovered d h) (ys @ ?unsup))) =
            mset (concat (map (discovered d h) ys)) + mset (concat (map (discovered d' h) ?unsup))"
      by (simp only: map_append concat_append mset_append dm)
    moreover have "mset (concat (map (discovered d h) stack)) =
            mset (concat (map (discovered d h) ys)) + mset (discovered d h m)"
      by (simp add: st)
    moreover have "mset found =
            (mset config + mset ?sup) + mset (concat (map (discovered d h) (ys @ ?unsup)))"
      using f(2) by (simp only: mset_append)
    ultimately have "mset found = mset config + mset (concat (map (discovered d h) stack))"
      using dd by (rule mset_rearrange)
    then show ?thesis using unfold f(1) by simp
  qed
qed

text \<open>What is registered from a module on is what the discovery sees of a supported type.\<close>

lemma discovered_seen:
  "c \<in> set (discovered d h m) \<Longrightarrow> seen h m c \<and> cls (h c) \<in> set SUPPORTED_MODULES"
proof (induction d arbitrary: m)
  case 0
  then show ?case by simp
next
  case (Suc d)
  from Suc.prems obtain name child where
    nc: "(name, child) \<in> set (named_children (h m))"
        "c \<in> set (if cls (h child) \<in> set SUPPORTED_MODULES then [child] else discovered d h child)"
    by auto
  show ?case
  proof (cases "cls (h child) \<in> set SUPPORTED_MODULES")
    case True
    then have "c = child" using nc(2) by simp
    then show ?thesis using nc(1) True traversed.here[of h m] by (auto simp: seen_def)
  next
    case False
    then have "c \<in> set (discovered d h child)" using nc(2) by simp
    from Suc.IH[OF this] obtain m' n where
      s: "traversed h child m'" "(n, c) \<in> set (named_children (h m'))"
         "cls (h c) \<in> set SUPPORTED_MODULES"
      by (auto simp: seen_def)
    have "traversed h m m'" using traversed.below[OF nc(1) False s(1)] .
    then show ?thesis using s(2,3) by (auto simp: seen_def)
  qed
qed

lemma traversed_discovered:
  "traversed h m m' \<Longrightarrow> fits d h m \<Longrightarrow> (n, c) \<in> set (named_children (h m')) \<Longrightarrow>
   cls (h c) \<in> set SUPPORTED_MODULES \<Longrightarrow> c \<in> set (discovered d h m)"
proof (induction arbitrary: d rule: traversed.induct)
  case (here m)
  from fits_children[OF here(1)] obtain d' where "d = Suc d'" by blast
  then show ?case using here(2,3) by force
next
  case (below name c0 m x)
  from fits_children[OF below.prems(1)] obtain d' where
    d: "d = Suc d'" "\<forall>nc \<in> set (named_children (h m)). fits d' h (snd nc)" by blast
  have "fits d' h c0" using d(2) below.hyps(1) by force
  from below.IH[OF this below.prems(2,3)] have "c \<in> set (discovered d' h c0)" .
  then show ?case using below.hyps(1,2) d(1) by force
qed

lemma discovered_set:
  "fits d h m \<Longrightarrow>
   set (discovered d h m) = {c. seen h m c \<and> cls (h c) \<in> set SUPPORTED_MODULES}"
  using discovered_seen traversed_discovered by (fastforce simp: seen_def)

text \<open>A module is registered at most as often as it occurs below the root.\<close>

lemma concat_submset:
  "\<forall>x \<in> set xs. mset (f x) \<subseteq># mset (g x) \<Longrightarrow>
   mset (concat (map f xs)) \<subseteq># mset (concat (map g xs))"
  by (induction xs) (auto intro: subset_mset.add_mono)

lemma discovered_descendants: "mset (discovered d h m) \<subseteq># mset (descendants d h m)"
proof (induction d arbitrary: m)
  case 0
  then show ?case by simp
next
  case (Suc d)
  have "mset (if cls (h (snd nc)) \<in> set SUPPORTED_MODULES then [snd nc]
              else discovered d h (snd nc)) \<subseteq># mset (snd nc # descendants d h (snd nc))"
    for nc :: "string \<times> ref"
  proof (cases "cls (h (snd nc)) \<in> set SUPPORTED_MODULES")
    case True
    then show ?thesis by simp
  next
    case False
    have "mset (discovered d h (snd nc)) \<subseteq># mset (snd nc # descendants d h (snd nc))"
      using Suc[of "snd nc"] by (simp add: subset_mset.order_trans)
    then show ?thesis using False by simp
  qed
  then have "mset (concat (map (\<lambda>nc. if cls (h (snd nc)) \<in> set SUPPORTED_MODULES then [snd nc]
                                 else discovered d h (snd nc)) (named_children (h m)))) \<subseteq>#
        mset (concat (map (\<lambda>nc. snd nc # descendants d h (snd nc)) (named_children (h m))))"
    by (intro concat_submset) blast
  then show ?case by (simp only: discovered.simps descendants.simps)
qed

lemma distinct_submset:
  assumes "mset xs \<subseteq># mset ys" and "distinct ys"
  shows "distinct xs"
  unfolding distinct_count_atmost_1
proof
  fix a
  have "count (mset ys) a \<le> 1" using assms(2) by (simp add: distinct_count_atmost_1)
  then have le: "count (mset xs) a \<le> 1"
    using mset_subset_eq_count[OF assms(1), of a] by linarith
  show "count (mset xs) a = (if a \<in> set xs then 1 else 0)"
  proof (cases "a \<in> set xs")
    case True
    then have "0 < count (mset xs) a" by simp
    then have "count (mset xs) a = 1" using le by linarith
    then show ?thesis using True by simp
  next
    case False
    then show ?thesis by simp
  qed
qed

lemma build_groups_discovered:
  "build_groups depth h model dflts (map ModuleEntry found) groups0 = Inr groups \<Longrightarrow>
   map (\<lambda>g. g ''module'') groups =
     map (\<lambda>g. g ''module'') groups0 @ map (\<lambda>c. Some (VModule c)) found"
proof (induction found arbitrary: groups0)
  case Nil
  then show ?case by simp
next
  case (Cons c found)
  from Cons.prems obtain g where
    s: "normalize_config depth h model dflts (ModuleEntry c) = Inr g"
       "build_groups depth h model dflts (map ModuleEntry found) (groups0 @ [g]) = Inr groups"
    by (auto simp: and_then_def split: sum.splits)
  have "g ''module'' = Some (VModule c)"
    using normalize_config_module[OF s(1)] by (simp add: entry_names_def)
  then show ?case using Cons.IH[OF s(2)] by simp
qed

lemma prepare_discovered:
  assumes "discover (heap w) b [model] [] (events w) = Some (found, evs)"
    and "prepare depth model None b self w = Some (Inr (self', w'))"
  shows "map (\<lambda>g. g ''module'') (module_groups self') =
           map (\<lambda>g. g ''module'') (module_groups self) @ map (\<lambda>c. Some (VModule c)) found"
    and "events w' = evs"
proof -
  from assms obtain groups h' acts biases where
    s: "build_groups depth (heap w) model (defaults self) (map ModuleEntry found)
          (module_groups self) = Inr groups"
       "module_groups self' = groups" "events w' = evs"
    by (auto simp: prepare_def private_prepare_def and_then_def
        split: sum.splits prod.splits)
  show "map (\<lambda>g. g ''module'') (module_groups self') =
           map (\<lambda>g. g ''module'') (module_groups self) @ map (\<lambda>c. Some (VModule c)) found"
    using build_groups_discovered[OF s(1)] s(2) by simp
  show "events w' = evs" using s(3) .
qed

lemma net_cls: "cls (heap_net 4) = Linear" "cls (heap_net 2) = BatchNorm2d"
  "cls (heap_net 0) = Other ''Net''"
  by (simp_all add: heap_net_def linear_obj_def bn_obj_def leaf_def)

lemma shared_children:
  "named_children (heap_shared 0) = [(''a'', 2), (''b'', 3)]"
  "named_children (heap_shared 2) = [(''0'', 4)]"
  "named_children (heap_shared 3) = [(''0'', 4)]"
  by (simp_all add: heap_shared_def leaf_def named_children_def)

lemma shared_cls: "cls (heap_shared 4) = Linear" "cls (heap_shared 2) = Other ''Sequential''"
  "cls (heap_shared 3) = Other ''Sequential''"
  by (simp_all add: heap_shared_def linear_obj_def leaf_def)

lemma discover_net: "discover heap_net True [0] [] [] = Some ([4, 2], [])"
  apply (subst discover.simps)
  apply (simp add: heap_net_children net_cls SUPPORTED_MODULES_def NEEDS_MANUAL_UPDATE_def)
  apply (subst discover.simps)
  apply simp
  done

lemma discover_linear_root: "discover heap_net True [4] [] [] = Some ([], [])"
  apply (subst discover.simps)
  apply (simp add: heap_net_children)
  apply (subst discover.simps)
  apply simp
  done

lemma discover_shared: "discover heap_shared True [0] [] [] = Some ([4, 4], [])"
  apply (subst discover.simps)
  apply (simp add: shared_children shared_cls SUPPORTED_MODULES_def NEEDS_MANUAL_UPDATE_def)
  apply (subst discover.simps)
  apply (simp add: shared_children shared_cls SUPPORTED_MODULES_def NEEDS_MANUAL_UPDATE_def)
  apply (subst discover.simps)
  apply (simp add: shared_children shared_cls SUPPORTED_MODULES_def NEEDS_MANUAL_UPDATE_def)
  apply (subst discover.simps)
  apply simp
  done

lemma bn_path: "module_to_fqn 3 heap_net 0 (VModule 2) [] = Inr (Some ''.bn'')"
  by (simp add: numeral_3_eq_3 heap_net_children)

lemma bn_body_returns:
  "\<exists>m x y. prepare_module (Some True) [''module'' \<mapsto> VModule 2, ''fqn'' \<mapsto> VStr ''bn''] 2
             bn_obj = Inr (m, x, y)"
proof -
  have "prepare_module (Some True) [''module'' \<mapsto> VModule 2, ''fqn'' \<mapsto> VStr ''bn''] 2
          bn_obj \<noteq> Inl e" for e
    by (simp add: body_defs bn_obj_def leaf_def)
  then show ?thesis by (metis old.sum.exhaust prod_cases3)
qed

text \<open>
  Claim C3, as stated, fails. In the net, the batch-norm layer 2 has its exact type
  in \<^verbatim>\<open>NEEDS_MANUAL_UPDATE\<close>, and the discovery registers it, without a warning,
  although bias pruning is requested: its type is in \<^verbatim>\<open>SUPPORTED_MODULES\<close> as well.
  A model that is a linear layer itself is of a supported type and is not registered.
  The linear layer that two containers share is registered twice.
\<close>

theorem discovery_counterexample:
  "cls (heap world_net 2) \<in> set NEEDS_MANUAL_UPDATE \<and>
   discover (heap world_net) True [0] [] (events world_net) = Some ([4, 2], []) \<and>
   map_option (map_sum id (\<lambda>sw. (map (\<lambda>g. g ''module'') (module_groups (fst sw)), events (snd sw))))
     (prepare 3 0 None True (init None) world_net) =
   Some (Inr ([Some (VModule 4), Some (VModule 2)], [])) \<and>
   cls (heap_net 4) \<in> set SUPPORTED_MODULES \<and>
   discover heap_net True [4] [] [] = Some ([], []) \<and>
   discover heap_shared True [0] [] [] = Some ([4, 4], [])"
proof -
  let ?g4 = "[''module'' \<mapsto> VModule 4, ''fqn'' \<mapsto> VStr ''fc'']"
  let ?g2 = "[''module'' \<mapsto> VModule 2, ''fqn'' \<mapsto> VStr ''bn'']"
  from fc_body_returns obtain m4 x4 y4 where
    p4: "prepare_module (Some True) ?g4 4 linear_obj = Inr (m4, x4, y4)" by blast
  from bn_body_returns obtain m2 x2 y2 where
    p2: "prepare_module (Some True) ?g2 2 bn_obj = Inr (m2, x2, y2)" by blast
  have "map_option (map_sum id (\<lambda>sw. (map (\<lambda>g. g ''module'') (module_groups (fst sw)), events (snd sw))))
     (prepare 3 0 None True (init None) world_net) =
   Some (Inr ([Some (VModule 4), Some (VModule 2)], []))"
    by (simp add: prepare_defs net_objects discover_net fc_path bn_path p4 p2 and_then_def)
  then show ?thesis
    using discover_net discover_linear_root discover_shared
    by (simp add: net_objects bn_obj_def leaf_def linear_obj_def NEEDS_MANUAL_UPDATE_def
        SUPPORTED_MODULES_def)
qed

text \<open>
  Claim C3, amended: on a model whose nesting fits a depth, the discovery of a
  \<^verbatim>\<open>prepare\<close> with a null config returns. It registers exactly the modules whose
  exact type is in \<^verbatim>\<open>SUPPORTED_MODULES\<close> among those it sees: the children of the
  root and of every module it sees whose type is not supported (never the root, never a
  module below a supported one). The modules with a type in
  \<^verbatim>\<open>NEEDS_MANUAL_UPDATE\<close> that it sees are registered like the others. No module is
  registered twice when no module occurs twice below the root. The groups of a
  \<^verbatim>\<open>prepare\<close> that returns normally are the groups the pruner had, followed by one
  group for each registered module, in order.
\<close>

theorem discovery_registers:
  assumes "fits d (heap w) model"
  shows "\<exists>found evs. discover (heap w) b [model] [] (events w) = Some (found, evs) \<and>
           set found = {c. seen (heap w) model c \<and> cls (heap w c) \<in> set SUPPORTED_MODULES} \<and>
           (\<forall>c. seen (heap w) model c \<and> cls (heap w c) \<in> set NEEDS_MANUAL_UPDATE \<longrightarrow>
                 c \<in> set found) \<and>
           (distinct (descendants d (heap w) model) \<longrightarrow> distinct found) \<and>
           prepare depth model None b self w \<noteq> None \<and>
           (\<forall>self' w'. prepare depth model None b self w = Some (Inr (self', w')) \<longrightarrow>
              map (\<lambda>g. g ''module'') (module_groups self') =
                map (\<lambda>g. g ''module'') (module_groups self) @ map (\<lambda>c. Some (VModule c)) found)"
proof -
  have "list_all (fits d (heap w)) [model]" using assms by simp
  from discover_fits[OF this, of b "[]" "events w"] obtain found where
    f: "discover (heap w) b [model] [] (events w) = Some (found, events w)"
       "mset found = mset (discovered d (heap w) model)"
    by auto
  have "set found = set (discovered d (heap w) model)" using f(2) by (rule mset_eq_setD)
  then have s: "set found = {c. seen (heap w) model c \<and> cls (heap w c) \<in> set SUPPORTED_MODULES}"
    using discovered_set[OF assms] by simp
  have m: "\<forall>c. seen (heap w) model c \<and> cls (heap w c) \<in> set NEEDS_MANUAL_UPDATE \<longrightarrow> c \<in> set found"
    using s manual_update_supported by blast
  have dist: "distinct found" if "distinct (descendants d (heap w) model)"
  proof (rule distinct_submset[OF _ that])
    show "mset found \<subseteq># mset (descendants d (heap w) model)"
      using f(2) discovered_descendants[of d "heap w" model] by simp
  qed
  have ret: "prepare depth model None b self w \<noteq> None" using f(1) by (simp add: prepare_def)
  show ?thesis
    using f(1) s m dist ret prepare_discovered(1)[OF f(1)] by blast
qed

theorem discovery_registers_witness:
  "fits 3 (heap world_net) 0 \<and>
   (\<exists>found evs. discover (heap world_net) True [0] [] (events world_net) = Some (found, evs) \<and>
      set found = {c. seen (heap world_net) 0 c \<and> cls (heap world_net c) \<in> set SUPPORTED_MODULES} \<and>
      distinct found)"
proof -
  have f: "fits 3 (heap world_net) 0"
    by (simp add: numeral_3_eq_3 world_net_def heap_net_children)
  have d: "distinct (descendants 3 (heap world_net) 0)"
    by (simp add: numeral_3_eq_3 world_net_def heap_net_children)
  from discovery_registers[OF f, of True 3 "init None"] d f show ?thesis by blast
qed

end
